theory Spec2Isabelle
  imports Main "HOL-Library.Sublist" "HOL-Library.Finite_Map"
begin

section \<open>Go strings and the functions of package strings that the program calls\<close>

text \<open>
  A Go string is a sequence of bytes, here a \<open>string\<close>. The functions of package
  \<open>strings\<close> used by the program are written out as they behave on bytes.
  \<open>strings.TrimSpace\<close> removes leading and trailing Unicode white space (the code
  points with property White_Space); on the UTF-8 bytes of the string these are the six
  ASCII bytes of \<open>asciiSpace\<close> and the multi-byte encodings of \<open>unicodeSpace\<close>.
\<close>

definition asciiSpace :: "char list" where
  "asciiSpace = [CHR 0x09, CHR 0x0A, CHR 0x0B, CHR 0x0C, CHR 0x0D, CHR 0x20]"

definition unicodeSpace :: "string list" where
  "unicodeSpace =
    [[CHR 0xC2, CHR 0x85], [CHR 0xC2, CHR 0xA0], [CHR 0xE1, CHR 0x9A, CHR 0x80],
     [CHR 0xE2, CHR 0x80, CHR 0x80], [CHR 0xE2, CHR 0x80, CHR 0x81],
     [CHR 0xE2, CHR 0x80, CHR 0x82], [CHR 0xE2, CHR 0x80, CHR 0x83],
     [CHR 0xE2, CHR 0x80, CHR 0x84], [CHR 0xE2, CHR 0x80, CHR 0x85],
     [CHR 0xE2, CHR 0x80, CHR 0x86], [CHR 0xE2, CHR 0x80, CHR 0x87],
     [CHR 0xE2, CHR 0x80, CHR 0x88], [CHR 0xE2, CHR 0x80, CHR 0x89],
     [CHR 0xE2, CHR 0x80, CHR 0x8A], [CHR 0xE2, CHR 0x80, CHR 0xA8],
     [CHR 0xE2, CHR 0x80, CHR 0xA9], [CHR 0xE2, CHR 0x80, CHR 0xAF],
     [CHR 0xE2, CHR 0x81, CHR 0x9F], [CHR 0xE3, CHR 0x80, CHR 0x80]]"

definition spaceSeqs :: "string list" where
  "spaceSeqs = map (\<lambda>c. [c]) asciiSpace @ unicodeSpace"

text \<open>One step of trimming: remove the first of the sequences that starts the string.\<close>

fun stripOne :: "string list \<Rightarrow> string \<Rightarrow> string option" where
  "stripOne [] s = None"
| "stripOne (p # ps) s =
     (if p \<noteq> [] \<and> prefix p s then Some (drop (length p) s) else stripOne ps s)"

function trimLeftSeqs :: "string list \<Rightarrow> string \<Rightarrow> string" where
  "trimLeftSeqs ps s = (case stripOne ps s of None \<Rightarrow> s | Some t \<Rightarrow> trimLeftSeqs ps t)"
  by pat_completeness auto
termination
proof (relation "measure (\<lambda>(ps, s). length s)")
  show "wf (measure (\<lambda>(ps, s). length s))" by simp
next
  fix ps :: "string list" and s t :: string
  assume "stripOne ps s = Some t"
  then have "length t < length s"
    by (induction ps) (auto split: if_splits simp: prefix_def)
  then show "((ps, t), (ps, s)) \<in> measure (\<lambda>(ps, s). length s)" by simp
qed

definition trimRightSeqs :: "string list \<Rightarrow> string \<Rightarrow> string" where
  "trimRightSeqs ps s = rev (trimLeftSeqs (map rev ps) (rev s))"

definition TrimSpace :: "string \<Rightarrow> string" where
  "TrimSpace s = trimRightSeqs spaceSeqs (trimLeftSeqs spaceSeqs s)"

text \<open>
  \<open>strings.Trim(s, cutset)\<close> for a cutset of ASCII bytes: leading and trailing bytes
  of the cutset are removed.
\<close>

definition Trim :: "string \<Rightarrow> string \<Rightarrow> string" where
  "Trim s cutset =
     rev (dropWhile (\<lambda>c. c \<in> set cutset) (rev (dropWhile (\<lambda>c. c \<in> set cutset) s)))"

text \<open>\<open>strings.Split(s, sep)\<close> for a separator of one byte.\<close>

fun Split :: "string \<Rightarrow> char \<Rightarrow> string list" where
  "Split [] sep = [[]]"
| "Split (c # cs) sep =
     (if c = sep then [] # Split cs sep
      else (case Split cs sep of [] \<Rightarrow> [[c]] | p # ps \<Rightarrow> (c # p) # ps))"

definition Contains :: "string \<Rightarrow> string \<Rightarrow> bool" where
  "Contains s substr = sublist substr s"

definition TrimSuffix :: "string \<Rightarrow> string \<Rightarrow> string" where
  "TrimSuffix s suf = (if suffix suf s then take (length s - length suf) s else s)"

section \<open>Errors\<close>

text \<open>
  A Go \<open>error\<close> value. \<open>NoErrAlreadyUpToDate\<close> is the sentinel of go-git that
  \<open>Push\<close> compares against; \<open>LibError\<close> is any other error of a library, with its
  text; \<open>fmt_Errorf\<close> is \<open>fmt.Errorf\<close> with a plain message and
  \<open>fmt_Errorf_w p e\<close> is \<open>fmt.Errorf(p + ": %w", e)\<close>.
\<close>

datatype error =
    NoErrAlreadyUpToDate
  | LibError string
  | fmt_Errorf string
  | fmt_Errorf_w string error

fun Error :: "error \<Rightarrow> string" where
  "Error NoErrAlreadyUpToDate = ''already up-to-date''"
| "Error (LibError s) = s"
| "Error (fmt_Errorf s) = s"
| "Error (fmt_Errorf_w p e) = p @ '': '' @ Error e"


text \<open>\<open>%d\<close> of a natural number.\<close>

function Itoa :: "nat \<Rightarrow> string" where
  "Itoa n = (if n < 10 then [char_of (48 + n)] else Itoa (n div 10) @ [char_of (48 + n mod 10)])"
  by pat_completeness auto
termination
  by (relation "measure id") auto

section \<open>Logging\<close>

text \<open>
  Package \<open>logger\<close>: \<open>Printf\<close> and \<open>Println\<close> write only in verbose mode,
  \<open>Errorf\<close> always writes. A log line is kept as the call that produced it: the
  format string of the source and its arguments.
\<close>

datatype arg = S string | D int | V error

datatype logline =
    logger_Println string
  | logger_Printf string "arg list"
  | logger_Errorf string "arg list"

fun isErrorLine :: "logline \<Rightarrow> bool" where
  "isErrorLine (logger_Errorf f as) = True"
| "isErrorLine l = False"

section \<open>The libraries the program calls\<close>

text \<open>
  The working trees, the remotes and the network are outside the program. They are a
  state \<open>'w\<close> that only the libraries read and change, and the libraries (go-git,
  gobwas/glob, os/exec, encoding/json, net/http, path/filepath) are the fields of a
  record of functions over that state. A call that only reads returns its result; a call
  that may write returns the new state as well. Every theorem about the program holds for
  every such record.
\<close>

datatype StatusCode =
  Unmodified | Untracked | Modified | Added | Deleted | Renamed | Copied | UpdatedButUnmerged

record FileStatus =
  Staging :: StatusCode
  Worktree :: StatusCode

type_synonym Status = "(string \<times> FileStatus) list"

record Message =
  Role :: string
  Content :: string

record ChatRequest =
  Model :: string
  Messages :: "Message list"
  MaxTokens :: int

record Request =
  Method :: string
  URL :: string
  Header :: "(string \<times> string) list"
  Body :: string

text \<open>
  An HTTP response: its status code and what decoding its body gives, as the error
  structure (\<open>error.message\<close>) and as a \<open>ChatResponse\<close> (the \<open>message.content\<close>
  of each choice).
\<close>

record Response =
  StatusCode :: nat
  errorResponse :: "error + string"
  chatResp :: "error + string list"

text \<open>
  The task record of package \<open>db\<close>. Instants and durations are counted in nanoseconds,
  as \<open>time.Duration\<close> does; \<open>t.Add(d)\<close> is \<open>t + d\<close>, \<open>t.After(u)\<close> is
  \<open>u < t\<close> and \<open>time.Since(t)\<close> is the clock minus \<open>t\<close>.
\<close>

record Task =
  ID :: int
  Path :: string
  Every :: string
  AutoAdd :: bool
  AutoPush :: bool
  StaticMsg :: string
  ExcludePatterns :: string

type_synonym Time = int
type_synonym Duration = int

text \<open>
  The fields of \<open>lib\<close>, beyond the calls named after their Go functions:
  \<open>wt_Commit\<close> takes the path of the repository, the message, and the name, e-mail and
  time of the author; \<open>time_Now\<close> reads the clock (the state it returns lets the next
  reading differ); \<open>map_range\<close> is the order in which a \<open>range\<close> loop visits the keys
  of a map, which Go leaves open; \<open>sql_Query\<close> is the query of \<open>GetAllTasks\<close>:
  it fails, or gives for every row what \<open>Scan\<close> returns and then what \<open>rows.Err\<close>
  returns.
\<close>

record 'w lib =
  filepath_Abs :: "string \<Rightarrow> 'w \<Rightarrow> error + string"
  git_PlainOpen :: "string \<Rightarrow> 'w \<Rightarrow> error option"
  repo_Worktree :: "string \<Rightarrow> 'w \<Rightarrow> error option"
  wt_Status :: "string \<Rightarrow> 'w \<Rightarrow> error + Status"
  wt_AddGlob :: "string \<Rightarrow> string \<Rightarrow> 'w \<Rightarrow> error option \<times> 'w"
  wt_RemoveGlob :: "string \<Rightarrow> string \<Rightarrow> 'w \<Rightarrow> error option \<times> 'w"
  wt_Commit ::
    "string \<Rightarrow> string \<Rightarrow> string \<Rightarrow> string \<Rightarrow> Time \<Rightarrow> 'w \<Rightarrow> error option \<times> 'w"
  repo_Head :: "string \<Rightarrow> 'w \<Rightarrow> error + string"
  repo_Push :: "string \<Rightarrow> string list \<Rightarrow> 'w \<Rightarrow> error option \<times> 'w"
  glob_Compile :: "string \<Rightarrow> error + (string \<Rightarrow> bool)"
  exec_LookPath :: "string \<Rightarrow> 'w \<Rightarrow> error option"
  exec_Output :: "string \<Rightarrow> string list \<Rightarrow> 'w \<Rightarrow> error + string"
  json_Marshal :: "ChatRequest \<Rightarrow> error + string"
  http_NewRequest :: "string \<Rightarrow> string \<Rightarrow> string \<Rightarrow> error + Request"
  http_Do :: "Request \<Rightarrow> 'w \<Rightarrow> (error + Response) \<times> 'w"
  time_Now :: "'w \<Rightarrow> Time \<times> 'w"
  time_ParseDuration :: "string \<Rightarrow> error + Duration"
  map_range :: "'w \<Rightarrow> int fset \<Rightarrow> int list"
  sql_Query :: "'w \<Rightarrow> error + ((error + Task) list \<times> error option)"

section \<open>Package llm\<close>

record Client =
  BaseURL :: string
  APIKey :: string
  ClientModel :: string

definition HasCredentials :: "Client \<Rightarrow> bool" where
  "HasCredentials c = (APIKey c \<noteq> [])"

definition Header_Set :: "(string \<times> string) list \<Rightarrow> string \<Rightarrow> string \<Rightarrow> (string \<times> string) list" where
  "Header_Set h k v = (k, v) # filter (\<lambda>kv. fst kv \<noteq> k) h"

definition promptText :: string where
  "promptText =
     ''You are a Git commit message generator. Your task is to write a clear, '' @
     ''concise commit message in the conventional commit format (type: description) based on the '' @
     ''following Git diff. Focus only on the most important changes, and keep the message under 72 characters. '' @
     ''Respond with ONLY the commit message, nothing else, do not add any other prefix or suffix.'' @
     [CHR 0x0A, CHR 0x0A] @ ''Diff:'' @ [CHR 0x0A]"

definition quoteCutset :: string where
  "quoteCutset = [CHR 0x22, CHR 0x27]"

text \<open>
  What \<open>GenerateCommitMessage\<close> does with the answer of the endpoint (from the check of
  the status code to the return).
\<close>

definition readResponse :: "Response \<Rightarrow> error + string" where
  "readResponse resp =
     (if StatusCode resp \<noteq> 200 then
        (case errorResponse resp of
           Inr m \<Rightarrow> Inl (fmt_Errorf (''API error: '' @ m))
         | Inl e \<Rightarrow> Inl (fmt_Errorf (''API returned non-200 status code: '' @ Itoa (StatusCode resp))))
      else
        (case chatResp resp of
           Inl err \<Rightarrow> Inl (fmt_Errorf_w ''failed to decode response'' err)
         | Inr choices \<Rightarrow>
             (case choices of
                [] \<Rightarrow> Inl (fmt_Errorf ''no response from LLM'')
              | content # rest \<Rightarrow> Inr (Trim (TrimSpace content) quoteCutset))))"

definition GenerateCommitMessage ::
  "'w lib \<Rightarrow> Client \<Rightarrow> string \<Rightarrow> 'w \<Rightarrow> (error + string) \<times> 'w" where
  "GenerateCommitMessage l c diff w =
     (if \<not> HasCredentials c then (Inl (fmt_Errorf ''LLM API credentials not configured''), w)
      else
        let prompt = promptText @ diff;
            chatReq = \<lparr>Model = ClientModel c,
                       Messages =
                         [\<lparr>Role = ''system'',
                           Content = ''You generate concise git commit messages in conventional format.''\<rparr>,
                          \<lparr>Role = ''user'', Content = prompt\<rparr>],
                       MaxTokens = 100\<rparr>
        in (case json_Marshal l chatReq of
              Inl err \<Rightarrow> (Inl (fmt_Errorf_w ''failed to marshal request body'' err), w)
            | Inr reqBody \<Rightarrow>
                let endpoint = TrimSuffix (BaseURL c) ''/'' @ ''/chat/completions''
                in (case http_NewRequest l ''POST'' endpoint reqBody of
                      Inl err \<Rightarrow> (Inl (fmt_Errorf_w ''failed to create request'' err), w)
                    | Inr req0 \<Rightarrow>
                        let h1 = Header_Set (Header req0) ''Content-Type'' ''application/json'';
                            h2 = Header_Set h1 ''Authorization'' (''Bearer '' @ APIKey c);
                            req = req0\<lparr>Header := h2\<rparr>
                        in (case http_Do l req w of
                              (Inl err, w') \<Rightarrow> (Inl (fmt_Errorf_w ''failed to send request'' err), w')
                            | (Inr resp, w') \<Rightarrow> (readResponse resp, w')))))"

section \<open>Package git\<close>

text \<open>
  A \<open>RepoManager\<close> holds the absolute path of the repository; the handle \<open>repo\<close>
  of the source is the repository at that path in the outside state.
\<close>

record RepoManager =
  path :: string

definition NewRepoManager :: "'w lib \<Rightarrow> string \<Rightarrow> 'w \<Rightarrow> error + RepoManager" where
  "NewRepoManager l repoPath w =
     (case filepath_Abs l repoPath w of
        Inl err \<Rightarrow> Inl (fmt_Errorf_w ''failed to get absolute path'' err)
      | Inr absPath \<Rightarrow>
          (case git_PlainOpen l absPath w of
             Some err \<Rightarrow> Inl (fmt_Errorf_w ''failed to open git repository'' err)
           | None \<Rightarrow> Inr \<lparr>path = absPath\<rparr>))"

definition HasChanges :: "'w lib \<Rightarrow> RepoManager \<Rightarrow> 'w \<Rightarrow> error + bool" where
  "HasChanges l r w =
     (case repo_Worktree l (path r) w of
        Some err \<Rightarrow> Inl (fmt_Errorf_w ''failed to get worktree'' err)
      | None \<Rightarrow>
          (case wt_Status l (path r) w of
             Inl err \<Rightarrow> Inl (fmt_Errorf_w ''failed to get status'' err)
           | Inr status \<Rightarrow>
               Inr (list_ex (\<lambda>(filePath, fileStatus).
                      Worktree fileStatus \<noteq> Unmodified \<or> Staging fileStatus \<noteq> Unmodified) status)))"

definition HasStagedChanges :: "'w lib \<Rightarrow> RepoManager \<Rightarrow> 'w \<Rightarrow> error + bool" where
  "HasStagedChanges l r w =
     (case repo_Worktree l (path r) w of
        Some err \<Rightarrow> Inl (fmt_Errorf_w ''failed to get worktree'' err)
      | None \<Rightarrow>
          (case wt_Status l (path r) w of
             Inl err \<Rightarrow> Inl (fmt_Errorf_w ''failed to get status'' err)
           | Inr status \<Rightarrow>
               Inr (list_ex (\<lambda>(filePath, fileStatus). Staging fileStatus \<noteq> Unmodified) status)))"

text \<open>The inner loop of \<open>StageChanges\<close>, over the paths of one status.\<close>

fun unstageMatching ::
  "'w lib \<Rightarrow> RepoManager \<Rightarrow> (string \<Rightarrow> bool) \<Rightarrow> string list \<Rightarrow> 'w \<Rightarrow> error option \<times> 'w" where
  "unstageMatching l r g [] w = (None, w)"
| "unstageMatching l r g (filePath # rest) w =
     (if g filePath then
        (case wt_RemoveGlob l (path r) filePath w of
           (Some err, w') \<Rightarrow> (Some (fmt_Errorf_w (''failed to unstage file '' @ filePath) err), w')
         | (None, w') \<Rightarrow> unstageMatching l r g rest w')
      else unstageMatching l r g rest w)"

text \<open>The outer loop of \<open>StageChanges\<close>, over the exclude patterns.\<close>

fun excludeLoop :: "'w lib \<Rightarrow> RepoManager \<Rightarrow> string list \<Rightarrow> 'w \<Rightarrow> error option \<times> 'w" where
  "excludeLoop l r [] w = (None, w)"
| "excludeLoop l r (p # patterns) w =
     (let pattern = TrimSpace p in
      if pattern = [] then excludeLoop l r patterns w
      else
        (case glob_Compile l pattern of
           Inl err \<Rightarrow>
             (Some (fmt_Errorf_w (''invalid exclude pattern '' @ [CHR 0x27] @ pattern @ [CHR 0x27]) err), w)
         | Inr g \<Rightarrow>
             (case wt_Status l (path r) w of
                Inl err \<Rightarrow> (Some (fmt_Errorf_w ''failed to get status'' err), w)
              | Inr status \<Rightarrow>
                  (case unstageMatching l r g (map fst status) w of
                     (Some err, w') \<Rightarrow> (Some err, w')
                   | (None, w') \<Rightarrow> excludeLoop l r patterns w'))))"

definition StageChanges :: "'w lib \<Rightarrow> RepoManager \<Rightarrow> string \<Rightarrow> 'w \<Rightarrow> error option \<times> 'w" where
  "StageChanges l r excludePatterns w =
     (case repo_Worktree l (path r) w of
        Some err \<Rightarrow> (Some (fmt_Errorf_w ''failed to get worktree'' err), w)
      | None \<Rightarrow>
          (case wt_AddGlob l (path r) ''.'' w of
             (Some err, w') \<Rightarrow> (Some (fmt_Errorf_w ''failed to stage changes'' err), w')
           | (None, w') \<Rightarrow>
               if excludePatterns \<noteq> [] then excludeLoop l r (Split excludePatterns CHR '','') w'
               else (None, w')))"

definition getSystemGitDiff :: "'w lib \<Rightarrow> RepoManager \<Rightarrow> 'w \<Rightarrow> error + string" where
  "getSystemGitDiff l r w =
     (case exec_LookPath l ''git'' w of
        Some err \<Rightarrow> Inl (fmt_Errorf_w ''git executable not found'' err)
      | None \<Rightarrow>
          (case exec_Output l (path r) [''git'', ''diff'', ''--staged''] w of
             Inl err \<Rightarrow> Inl (fmt_Errorf_w ''failed to run git diff'' err)
           | Inr output \<Rightarrow>
               if length output = 0 then
                 (case exec_Output l (path r) [''git'', ''diff''] w of
                    Inl err \<Rightarrow> Inl (fmt_Errorf_w ''failed to run git diff for unstaged changes'' err)
                  | Inr output' \<Rightarrow> Inr output')
               else Inr output))"

fun stagingStatus :: "StatusCode \<Rightarrow> string" where
  "stagingStatus Untracked = ''Untracked''"
| "stagingStatus Modified = ''Modified''"
| "stagingStatus Added = ''Added''"
| "stagingStatus Deleted = ''Deleted''"
| "stagingStatus Renamed = ''Renamed''"
| "stagingStatus Copied = ''Copied''"
| "stagingStatus UpdatedButUnmerged = ''Conflicted''"
| "stagingStatus Unmodified = ''Modified''"

definition GetDiff :: "'w lib \<Rightarrow> RepoManager \<Rightarrow> 'w \<Rightarrow> error + string" where
  "GetDiff l r w =
     (case getSystemGitDiff l r w of
        Inr diffStr \<Rightarrow> Inr diffStr
      | Inl e \<Rightarrow>
          (case repo_Worktree l (path r) w of
             Some err \<Rightarrow> Inl (fmt_Errorf_w ''failed to get worktree'' err)
           | None \<Rightarrow>
               (case wt_Status l (path r) w of
                  Inl err \<Rightarrow> Inl (fmt_Errorf_w ''failed to get status'' err)
                | Inr status \<Rightarrow>
                    Inr (concat (map (\<lambda>(filePath, fileStatus).
                           if Staging fileStatus \<noteq> Unmodified then
                             ''File: '' @ filePath @ '' (Status: '' @ stagingStatus (Staging fileStatus)
                               @ '')'' @ [CHR 0x0A]
                           else []) status)))))"

definition Commit :: "'w lib \<Rightarrow> RepoManager \<Rightarrow> string \<Rightarrow> 'w \<Rightarrow> error option \<times> 'w" where
  "Commit l r message w =
     (let doCommit = (\<lambda>w1.
            case time_Now l w1 of
              (now, w2) \<Rightarrow>
                (case wt_Commit l (path r) message ''Commitmonk'' ''commitmonk@automated.tool'' now w2 of
                   (Some err, w3) \<Rightarrow> (Some (fmt_Errorf_w ''failed to create commit'' err), w3)
                 | (None, w3) \<Rightarrow> (None, w3)))
      in
      case repo_Worktree l (path r) w of
        Some err \<Rightarrow> (Some (fmt_Errorf_w ''failed to get worktree'' err), w)
      | None \<Rightarrow>
          (case HasStagedChanges l r w of
             Inl err \<Rightarrow> (Some (fmt_Errorf_w ''failed to check for staged changes'' err), w)
           | Inr hasStagedChanges \<Rightarrow>
               if \<not> hasStagedChanges then
                 (case wt_AddGlob l (path r) ''.'' w of
                    (Some err, w1) \<Rightarrow> (Some (fmt_Errorf_w ''failed to stage changes'' err), w1)
                  | (None, w1) \<Rightarrow>
                      (case HasStagedChanges l r w1 of
                         Inl err \<Rightarrow> (Some (fmt_Errorf_w ''failed to check for staged changes'' err), w1)
                       | Inr hasStagedChanges' \<Rightarrow>
                           if \<not> hasStagedChanges' then (Some (fmt_Errorf ''no staged changes to commit''), w1)
                           else doCommit w1))
               else doCommit w))"

definition Push :: "'w lib \<Rightarrow> RepoManager \<Rightarrow> 'w \<Rightarrow> error option \<times> 'w" where
  "Push l r w =
     (case repo_Head l (path r) w of
        Inl err \<Rightarrow> (Some (fmt_Errorf_w ''failed to get HEAD'' err), w)
      | Inr headName \<Rightarrow>
          let refSpec = headName @ '':'' @ headName in
          (case repo_Push l (path r) [refSpec] w of
             (Some err, w') \<Rightarrow>
               if err \<noteq> NoErrAlreadyUpToDate then (Some (fmt_Errorf_w ''failed to push'' err), w')
               else (None, w')
           | (None, w') \<Rightarrow> (None, w')))"

section \<open>Package scheduler: executing one task\<close>

text \<open>
  \<open>executeTask\<close> is one function in the source. Its blocks are named here so that a
  property of one block can be stated on it: the staging decision, the choice of the commit
  message, and commit with push. Each returns the lines it logs, in order, and the outside
  state it leaves.
\<close>

text \<open>Staging (``Stage changes if configured''); the flag says whether the run goes on.\<close>

definition stageStep ::
  "'w lib \<Rightarrow> RepoManager \<Rightarrow> Task \<Rightarrow> 'w \<Rightarrow> (bool \<times> logline list) \<times> 'w" where
  "stageStep l repoManager task w =
     (if AutoAdd task then
        (case StageChanges l repoManager (ExcludePatterns task) w of
           (Some err, w') \<Rightarrow>
             ((False, [logger_Printf ''Auto-staging changes in %s'' [S (Path task)],
                       logger_Errorf ''Error staging changes in %s: %v'' [S (Path task), V err]]), w')
         | (None, w') \<Rightarrow>
             ((True, [logger_Printf ''Auto-staging changes in %s'' [S (Path task)]]), w'))
      else
        (case HasStagedChanges l repoManager w of
           Inl err \<Rightarrow>
             ((False, [logger_Errorf ''Error checking for staged changes in %s: %v''
                         [S (Path task), V err]]), w)
         | Inr hasStagedChanges \<Rightarrow>
             if \<not> hasStagedChanges then
               ((False, [logger_Printf ''No staged changes in %s and auto-add is disabled, skipping''
                           [S (Path task)]]), w)
             else ((True, []), w)))"

text \<open>
  The commit message (``Determine commit message''): \<open>None\<close> is the return without a
  commit.
\<close>

definition resolveMessage ::
  "'w lib \<Rightarrow> Client \<Rightarrow> Task \<Rightarrow> string \<Rightarrow> 'w \<Rightarrow> (string option \<times> logline list) \<times> 'w" where
  "resolveMessage l llmClient task diff w =
     (if HasCredentials llmClient then
        (case GenerateCommitMessage l llmClient diff w of
           (Inl err, w') \<Rightarrow>
             if StaticMsg task \<noteq> [] then
               ((Some (StaticMsg task),
                 [logger_Printf ''Generating commit message using LLM for %s'' [S (Path task)],
                  logger_Errorf ''Error generating commit message for %s: %v'' [S (Path task), V err],
                  logger_Printf ''Falling back to static message for %s'' [S (Path task)]]), w')
             else
               ((None,
                 [logger_Printf ''Generating commit message using LLM for %s'' [S (Path task)],
                  logger_Errorf ''Error generating commit message for %s: %v'' [S (Path task), V err],
                  logger_Errorf ''LLM failed and no static message configured for %s, cannot commit''
                    [S (Path task)]]), w')
         | (Inr commitMsg, w') \<Rightarrow>
             ((Some commitMsg,
               [logger_Printf ''Generating commit message using LLM for %s'' [S (Path task)]]), w'))
      else if StaticMsg task \<noteq> [] then
        ((Some (StaticMsg task),
          [logger_Printf ''Using configured static message for %s'' [S (Path task)]]), w)
      else
        ((None,
          [logger_Errorf ''No LLM credentials and no static message configured for %s, cannot commit''
             [S (Path task)]]), w))"

text \<open>Commit and push (``Commit changes'', ``Push if configured'').\<close>

definition commitAndPush ::
  "'w lib \<Rightarrow> RepoManager \<Rightarrow> Task \<Rightarrow> string \<Rightarrow> 'w \<Rightarrow> logline list \<times> 'w" where
  "commitAndPush l repoManager task commitMsg w =
     (case Commit l repoManager commitMsg w of
        (Some err, w') \<Rightarrow>
          if Contains (Error err) ''no staged changes'' then
            ([logger_Printf ''No staged changes to commit in %s'' [S (Path task)]], w')
          else
            ([logger_Errorf ''Error committing changes in %s: %v'' [S (Path task), V err]], w')
      | (None, w') \<Rightarrow>
          if AutoPush task then
            (case Push l repoManager w' of
               (Some err, w'') \<Rightarrow>
                 ([logger_Printf ''Created commit in %s: %s'' [S (Path task), S commitMsg],
                   logger_Printf ''Auto-pushing commits in %s'' [S (Path task)],
                   logger_Errorf ''Error pushing changes in %s: %v'' [S (Path task), V err]], w'')
             | (None, w'') \<Rightarrow>
                 ([logger_Printf ''Created commit in %s: %s'' [S (Path task), S commitMsg],
                   logger_Printf ''Auto-pushing commits in %s'' [S (Path task)],
                   logger_Printf ''Successfully pushed commits in %s'' [S (Path task)]], w''))
          else
            ([logger_Printf ''Created commit in %s: %s'' [S (Path task), S commitMsg]], w'))"

text \<open>The part of \<open>executeTask\<close> after the diff: message, then commit and push.\<close>

definition messageAndCommit ::
  "'w lib \<Rightarrow> Client \<Rightarrow> RepoManager \<Rightarrow> Task \<Rightarrow> string \<Rightarrow> 'w \<Rightarrow> logline list \<times> 'w" where
  "messageAndCommit l llmClient repoManager task diff w =
     (case resolveMessage l llmClient task diff w of
        ((None, logs), w') \<Rightarrow> (logs, w')
      | ((Some commitMsg, logs), w') \<Rightarrow>
          (case commitAndPush l repoManager task commitMsg w' of
             (logs', w'') \<Rightarrow> (logs @ logs', w'')))"

definition executeTask :: "'w lib \<Rightarrow> Client \<Rightarrow> Task \<Rightarrow> 'w \<Rightarrow> logline list \<times> 'w" where
  "executeTask l llmClient task w =
     (case NewRepoManager l (Path task) w of
        Inl err \<Rightarrow>
          ([logger_Printf ''Executing task for repository: %s'' [S (Path task)],
            logger_Errorf ''Error opening repository %s: %v'' [S (Path task), V err]], w)
      | Inr repoManager \<Rightarrow>
          (case HasChanges l repoManager w of
             Inl err \<Rightarrow>
               ([logger_Printf ''Executing task for repository: %s'' [S (Path task)],
                 logger_Errorf ''Error checking for changes in %s: %v'' [S (Path task), V err]], w)
           | Inr hasChanges \<Rightarrow>
               if \<not> hasChanges then
                 ([logger_Printf ''Executing task for repository: %s'' [S (Path task)],
                   logger_Printf ''No changes detected in %s, skipping'' [S (Path task)]], w)
               else
                 (case stageStep l repoManager task w of
                    ((False, logs), w') \<Rightarrow>
                      (logger_Printf ''Executing task for repository: %s'' [S (Path task)] # logs, w')
                  | ((True, logs), w') \<Rightarrow>
                      (case GetDiff l repoManager w' of
                         Inl err \<Rightarrow>
                           (logger_Printf ''Executing task for repository: %s'' [S (Path task)] # logs @
                            [logger_Errorf ''Error getting diff for %s: %v'' [S (Path task), V err]], w')
                       | Inr diff \<Rightarrow>
                           (case messageAndCommit l llmClient repoManager task diff w' of
                              (logs', w'') \<Rightarrow>
                                (logger_Printf ''Executing task for repository: %s'' [S (Path task)]
                                   # logs @ logs', w''))))))"

section \<open>Package db: reading the registry\<close>

fun scanRows :: "(error + Task) list \<Rightarrow> error + Task list" where
  "scanRows [] = Inr []"
| "scanRows (row # rows) =
     (case row of
        Inl err \<Rightarrow> Inl (fmt_Errorf_w ''failed to scan row'' err)
      | Inr tk \<Rightarrow> (case scanRows rows of Inl e \<Rightarrow> Inl e | Inr tks \<Rightarrow> Inr (tk # tks)))"

definition GetAllTasks :: "'w lib \<Rightarrow> 'w \<Rightarrow> error + Task list" where
  "GetAllTasks l w =
     (case sql_Query l w of
        Inl err \<Rightarrow> Inl (fmt_Errorf_w ''failed to query tasks'' err)
      | Inr (rows, rowsErr) \<Rightarrow>
          (case scanRows rows of
             Inl e \<Rightarrow> Inl e
           | Inr tks \<Rightarrow>
               (case rowsErr of
                  Some err \<Rightarrow> Inl (fmt_Errorf_w ''error iterating through rows'' err)
                | None \<Rightarrow> Inr tks)))"

section \<open>Package scheduler: the schedule\<close>

record taskState =
  task :: Task
  nextRun :: Time

text \<open>
  The fields of \<open>TaskRunner\<close> that the scheduler changes. The channel \<open>stopCh\<close> never
  carries a value; its state is whether it has been closed.
\<close>

record TaskRunner =
  tasks :: "(int, taskState) fmap"
  lastCheck :: Time
  stopCh_closed :: bool

definition Second :: Duration where
  "Second = 1000000000"

definition NewTaskRunner :: "'w lib \<Rightarrow> 'w \<Rightarrow> TaskRunner \<times> 'w" where
  "NewTaskRunner l w =
     (case time_Now l w of
        (now, w') \<Rightarrow> (\<lparr>tasks = fmempty, lastCheck = now, stopCh_closed = False\<rparr>, w'))"

text \<open>
  \<open>Stop\<close>: closing a channel that is already closed is a run-time panic in Go
  (\<open>Inl\<close>, with the text of the panic).
\<close>

definition Stop :: "TaskRunner \<Rightarrow> string + (TaskRunner \<times> logline list)" where
  "Stop r =
     (if stopCh_closed r then Inl ''close of closed channel''
      else Inr (r\<lparr>stopCh_closed := True\<rparr>, [logger_Println ''Task scheduler stopped'']))"

text \<open>The first loop of \<open>loadTasks\<close>, over the records read from the registry.\<close>

fun loadLoop ::
  "'w lib \<Rightarrow> Task list \<Rightarrow> TaskRunner \<Rightarrow> int set \<Rightarrow> 'w \<Rightarrow> (TaskRunner \<times> int set \<times> logline list) \<times> 'w" where
  "loadLoop l [] r currentTaskIDs w = ((r, currentTaskIDs, []), w)"
| "loadLoop l (tk # tks) r currentTaskIDs w =
     (case fmlookup (tasks r) (ID tk) of
        Some existingState \<Rightarrow>
          (case loadLoop l tks (r\<lparr>tasks := fmupd (ID tk) (existingState\<lparr>task := tk\<rparr>) (tasks r)\<rparr>)
                  (insert (ID tk) currentTaskIDs) w of
             ((r', ids, logs), w') \<Rightarrow>
               ((r', ids,
                 logger_Printf ''Updated task: %s (ID: %d, every %s)'' [S (Path tk), D (ID tk), S (Every tk)]
                   # logs), w'))
      | None \<Rightarrow>
          (case time_ParseDuration l (Every tk) of
             Inl err \<Rightarrow>
               (case loadLoop l tks r (insert (ID tk) currentTaskIDs) w of
                  ((r', ids, logs), w') \<Rightarrow>
                    ((r', ids,
                      logger_Printf ''Warning: Invalid duration for task %d (%s): %v''
                        [D (ID tk), S (Path tk), V err] # logs), w'))
           | Inr duration \<Rightarrow>
               (case time_Now l w of
                  (now, w1) \<Rightarrow>
                    (case loadLoop l tks
                            (r\<lparr>tasks := fmupd (ID tk) \<lparr>task = tk, nextRun = now + duration\<rparr> (tasks r)\<rparr>)
                            (insert (ID tk) currentTaskIDs) w1 of
                       ((r', ids, logs), w') \<Rightarrow>
                         ((r', ids,
                           logger_Printf ''Loaded new task: %s (ID: %d, every %s)''
                             [S (Path tk), D (ID tk), S (Every tk)] # logs), w')))))"

text \<open>The second loop of \<open>loadTasks\<close>, over the keys of the schedule.\<close>

fun removeLoop :: "int list \<Rightarrow> int set \<Rightarrow> TaskRunner \<Rightarrow> TaskRunner \<times> logline list" where
  "removeLoop [] currentTaskIDs r = (r, [])"
| "removeLoop (i # ids) currentTaskIDs r =
     (if i \<notin> currentTaskIDs then
        (case removeLoop ids currentTaskIDs (r\<lparr>tasks := fmdrop i (tasks r)\<rparr>) of
           (r', logs) \<Rightarrow>
             (r', logger_Printf (''Removing task with ID %d as it'' @ [CHR 0x27]
                                  @ ''s no longer in the database'') [D i] # logs))
      else removeLoop ids currentTaskIDs r)"

definition loadTasks :: "'w lib \<Rightarrow> TaskRunner \<Rightarrow> 'w \<Rightarrow> (error option \<times> TaskRunner \<times> logline list) \<times> 'w" where
  "loadTasks l r w =
     (case GetAllTasks l w of
        Inl err \<Rightarrow> ((Some err, r, []), w)
      | Inr tks \<Rightarrow>
          (case loadLoop l tks r {} w of
             ((r1, currentTaskIDs, logs1), w1) \<Rightarrow>
               (case removeLoop (map_range l w1 (fmdom (tasks r1))) currentTaskIDs r1 of
                  (r2, logs2) \<Rightarrow>
                    (case time_Now l w1 of
                       (now, w2) \<Rightarrow> ((None, r2\<lparr>lastCheck := now\<rparr>, logs1 @ logs2), w2)))))"

definition checkForChanges ::
  "'w lib \<Rightarrow> TaskRunner \<Rightarrow> 'w \<Rightarrow> (error option \<times> TaskRunner \<times> logline list) \<times> 'w" where
  "checkForChanges l r w =
     (case time_Now l w of
        (now, w1) \<Rightarrow>
          if now - lastCheck r < 10 * Second then ((None, r, []), w1)
          else
            (case loadTasks l r w1 of
               ((err, r', logs), w2) \<Rightarrow>
                 ((err, r', logger_Println ''Checking for task updates...'' # logs), w2)))"

text \<open>
  The loop of \<open>processTasks\<close>. \<open>go r.executeTask(state.task)\<close> starts an execution
  that the loop does not wait for; the loop's part of it is the task it hands over, kept
  in the list of dispatched tasks.
\<close>

fun processLoop ::
  "'w lib \<Rightarrow> Time \<Rightarrow> int list \<Rightarrow> TaskRunner \<Rightarrow> TaskRunner \<times> Task list \<times> logline list" where
  "processLoop l now [] r = (r, [], [])"
| "processLoop l now (i # ids) r =
     (case fmlookup (tasks r) i of
        None \<Rightarrow> processLoop l now ids r
      | Some state \<Rightarrow>
          if nextRun state < now then
            (case time_ParseDuration l (Every (task state)) of
               Inl err \<Rightarrow>
                 (case processLoop l now ids (r\<lparr>tasks := fmdrop i (tasks r)\<rparr>) of
                    (r', dispatched, logs) \<Rightarrow>
                      (r', task state # dispatched,
                       logger_Printf ''Error parsing duration for task %d: %v'' [D i, V err] # logs))
             | Inr duration \<Rightarrow>
                 (case processLoop l now ids
                         (r\<lparr>tasks := fmupd i (state\<lparr>nextRun := now + duration\<rparr>) (tasks r)\<rparr>) of
                    (r', dispatched, logs) \<Rightarrow> (r', task state # dispatched, logs)))
          else processLoop l now ids r)"

definition processTasks ::
  "'w lib \<Rightarrow> TaskRunner \<Rightarrow> 'w \<Rightarrow> (TaskRunner \<times> Task list \<times> logline list) \<times> 'w" where
  "processTasks l r w =
     (case time_Now l w of
        (now, w') \<Rightarrow> (processLoop l now (map_range l w' (fmdom (tasks r))) r, w'))"

text \<open>
  The loop of \<open>run\<close>. Each pass waits in \<open>select\<close>; the list gives, pass by pass, the
  case that fires. Nothing is ever sent on \<open>stopCh\<close>, so its case can fire only once the
  channel is closed.
\<close>

datatype select_case = recv_stopCh | recv_ticker

fun run ::
  "'w lib \<Rightarrow> select_case list \<Rightarrow> TaskRunner \<Rightarrow> 'w \<Rightarrow> (TaskRunner \<times> Task list \<times> logline list) \<times> 'w" where
  "run l [] r w = ((r, [], []), w)"
| "run l (recv_stopCh # cs) r w =
     (if stopCh_closed r then ((r, [], []), w) else run l cs r w)"
| "run l (recv_ticker # cs) r w =
     (case checkForChanges l r w of
        ((err, r1, logs1), w1) \<Rightarrow>
          (case processTasks l r1 w1 of
             ((r2, dispatched2, logs2), w2) \<Rightarrow>
               (case run l cs r2 w2 of
                  ((r3, dispatched3, logs3), w3) \<Rightarrow>
                    ((r3, dispatched2 @ dispatched3,
                      logs1 @
                      (case err of
                         None \<Rightarrow> []
                       | Some e \<Rightarrow> [logger_Printf ''Error checking for task updates: %v'' [V e]])
                      @ logs2 @ logs3), w3))))"

definition Start :: "'w lib \<Rightarrow> TaskRunner \<Rightarrow> 'w \<Rightarrow> (error option \<times> TaskRunner \<times> logline list) \<times> 'w" where
  "Start l r w =
     (case loadTasks l r w of
        ((Some err, r', logs), w') \<Rightarrow>
          ((Some (fmt_Errorf_w ''failed to load tasks'' err), r',
            logger_Println ''Starting task scheduler...'' # logs), w')
      | ((None, r', logs), w') \<Rightarrow>
          ((None, r', logger_Println ''Starting task scheduler...'' # logs), w'))"

section \<open>A simulated outside world\<close>

text \<open>
  One instance of \<open>lib\<close>, small enough to run: a single repository given by the status
  of its files, the commits made so far (message and paths), the requests sent to the
  endpoint, a clock that moves by one at each reading, and the rows of the registry. Its
  parameters are the answer of the endpoint and the answer of the remote to a push. It
  serves to run the program on concrete inputs; no theorem about the program depends on
  it.

  The repository follows go-git. \<open>Status\<close> reports an untracked file with both codes
  \<open>Untracked\<close>, a file added to the index as \<open>Added\<close> and \<open>Unmodified\<close>, and
  a tracked file changed in the working tree only as \<open>Unmodified\<close> and \<open>Modified\<close>.
  \<open>AddGlob(".")\<close> puts every change of the working tree into the index.
  \<open>RemoveGlob\<close> acts on the files of the index that match: it removes them from the
  index and deletes them from the working tree, so that a file that was only added is gone
  and a file of the last commit shows as a staged deletion; a file that is not in the index
  is left alone. \<open>Commit\<close> records the paths with a staged change.
\<close>

record world =
  files :: Status
  commits :: "(string \<times> string list) list"
  pushes :: nat
  requests :: "Request list"
  clock :: Time
  registry :: "Task list"

definition simInIndex :: "FileStatus \<Rightarrow> bool" where
  "simInIndex fs = (Staging fs \<noteq> Untracked \<and> Staging fs \<noteq> Deleted)"

definition simStage :: "string \<times> FileStatus \<Rightarrow> (string \<times> FileStatus) option" where
  "simStage e =
     (if Worktree (snd e) = Unmodified then Some e
      else if Worktree (snd e) = Untracked \<or> Staging (snd e) = Added then
        (if Worktree (snd e) = Deleted then None
         else Some (fst e, \<lparr>Staging = Added, Worktree = Unmodified\<rparr>))
      else Some (fst e, \<lparr>Staging = Worktree (snd e), Worktree = Unmodified\<rparr>))"

definition simRemove :: "string \<Rightarrow> string \<times> FileStatus \<Rightarrow> (string \<times> FileStatus) option" where
  "simRemove f e =
     (if fst e = f \<and> simInIndex (snd e) then
        (if Staging (snd e) = Added then None
         else Some (fst e, \<lparr>Staging = Deleted, Worktree = Unmodified\<rparr>))
      else Some e)"

definition simStaged :: "Status \<Rightarrow> string list" where
  "simStaged st =
     map fst (filter (\<lambda>e. Staging (snd e) \<noteq> Unmodified \<and> Staging (snd e) \<noteq> Untracked) st)"

definition simCommitted :: "string \<times> FileStatus \<Rightarrow> (string \<times> FileStatus) option" where
  "simCommitted e =
     (if Staging (snd e) = Deleted then None
      else if Staging (snd e) = Untracked then Some e
      else Some (fst e, (snd e)\<lparr>Staging := Unmodified\<rparr>))"

definition simGlob :: "string \<Rightarrow> string \<Rightarrow> bool" where
  "simGlob pattern f =
     (case pattern of
        c # cs \<Rightarrow> if c = CHR ''*'' then suffix cs f else f = pattern
      | [] \<Rightarrow> f = [])"

definition simDigits :: "string \<Rightarrow> nat" where
  "simDigits ds = foldl (\<lambda>n c. 10 * n + (of_char c - 48)) 0 ds"

definition simIsDigit :: "char \<Rightarrow> bool" where
  "simIsDigit c = (c \<in> set ''0123456789'')"

definition simParseDuration :: "string \<Rightarrow> error + Duration" where
  "simParseDuration s =
     (let ds = takeWhile simIsDigit s; u = dropWhile simIsDigit s in
      if ds = [] then Inl (LibError ''time: invalid duration'')
      else if u = ''s'' then Inr (int (simDigits ds) * Second)
      else if u = ''m'' then Inr (int (simDigits ds) * 60 * Second)
      else if u = ''h'' then Inr (int (simDigits ds) * 3600 * Second)
      else Inl (LibError ''time: unknown unit in duration''))"

definition sim :: "(error + Response) \<Rightarrow> error option \<Rightarrow> world lib" where
  "sim reply remote =
     \<lparr>filepath_Abs = (\<lambda>p w. Inr p),
      git_PlainOpen = (\<lambda>p w. None),
      repo_Worktree = (\<lambda>p w. None),
      wt_Status = (\<lambda>p w. Inr (files w)),
      wt_AddGlob = (\<lambda>p g w. (None, w\<lparr>files := List.map_filter simStage (files w)\<rparr>)),
      wt_RemoveGlob = (\<lambda>p f w. (None, w\<lparr>files := List.map_filter (simRemove f) (files w)\<rparr>)),
      wt_Commit = (\<lambda>p m name email t w.
         (None, w\<lparr>commits := commits w @ [(m, simStaged (files w))],
                   files := List.map_filter simCommitted (files w)\<rparr>)),
      repo_Head = (\<lambda>p w. Inr ''refs/heads/main''),
      repo_Push = (\<lambda>p specs w. (remote, w\<lparr>pushes := pushes w + 1\<rparr>)),
      glob_Compile = (\<lambda>pattern. Inr (simGlob pattern)),
      exec_LookPath = (\<lambda>f w. Some (LibError ''executable file not found in $PATH'')),
      exec_Output = (\<lambda>p args w. Inr []),
      json_Marshal = (\<lambda>req. Inr (concat (map Content (Messages req)))),
      http_NewRequest = (\<lambda>m u b. Inr \<lparr>Method = m, URL = u, Header = [], Body = b\<rparr>),
      http_Do = (\<lambda>req w. (reply, w\<lparr>requests := requests w @ [req]\<rparr>)),
      time_Now = (\<lambda>w. (clock w, w\<lparr>clock := clock w + 1\<rparr>)),
      time_ParseDuration = simParseDuration,
      map_range = (\<lambda>w K. sorted_list_of_fset K),
      sql_Query = (\<lambda>w. Inr (map Inr (registry w), None))\<rparr>"

section \<open>Notions used to state the properties\<close>

text \<open>
  Go visits every key of a map once in a \<open>range\<close> loop, in an order it does not fix:
  \<open>rangeOK\<close> says so of \<open>map_range\<close>.
\<close>

definition rangeOK :: "'w lib \<Rightarrow> bool" where
  "rangeOK l = (\<forall>w K. set (map_range l w K) = fset K \<and> distinct (map_range l w K))"

text \<open>
  Every entry of the schedule is stored under the ID of its task. \<open>NewTaskRunner\<close>
  starts with an empty schedule, \<open>loadTasks\<close> creates and updates entries that way and
  \<open>processTasks\<close> never changes the task of an entry, so the schedule of a running
  scheduler has this property.
\<close>

definition keysAreIDs :: "TaskRunner \<Rightarrow> bool" where
  "keysAreIDs r = fmpred (\<lambda>i st. ID (task st) = i) (tasks r)"

text \<open>The outside state after \<open>k\<close> readings of the clock.\<close>

definition clockReads :: "'w lib \<Rightarrow> nat \<Rightarrow> 'w \<Rightarrow> 'w" where
  "clockReads l k w = ((\<lambda>v. snd (time_Now l v)) ^^ k) w"

text \<open>
  What a tick at time \<open>now\<close> makes of one entry (\<open>None\<close>: the entry is dropped), and
  the task it hands over for the key \<open>i\<close>, if any.
\<close>

definition rescheduled :: "'w lib \<Rightarrow> Time \<Rightarrow> taskState \<Rightarrow> taskState option" where
  "rescheduled l now st =
     (if nextRun st < now then
        (case time_ParseDuration l (Every (task st)) of
           Inl err \<Rightarrow> None
         | Inr d \<Rightarrow> Some (st\<lparr>nextRun := now + d\<rparr>))
      else Some st)"

definition dueTask :: "Time \<Rightarrow> TaskRunner \<Rightarrow> int \<Rightarrow> Task option" where
  "dueTask now r i =
     (case fmlookup (tasks r) i of
        None \<Rightarrow> None
      | Some st \<Rightarrow> if nextRun st < now then Some (task st) else None)"

text \<open>The registry, read in state \<open>w\<close>, fails or has no record with ID \<open>i\<close>.\<close>

definition absentFrom :: "'w lib \<Rightarrow> int \<Rightarrow> 'w \<Rightarrow> bool" where
  "absentFrom l i w = (case GetAllTasks l w of Inl err \<Rightarrow> True | Inr tks \<Rightarrow> i \<notin> ID ` set tks)"

text \<open>
  The Message Resolver as the specification words it (section 4.3): with credentials the
  generated text if the generation succeeds, else the static message if one is configured,
  else nothing; without credentials the static message if one is configured, else nothing.
  \<open>None\<close> is the abort. This definition follows the specification, not the source; claim
  C1 compares the source with it.
\<close>

definition spec_messageResolver :: "bool \<Rightarrow> string \<Rightarrow> error + string \<Rightarrow> string option" where
  "spec_messageResolver hasLLMCredentials staticMessage generation =
     (if hasLLMCredentials then
        (case generation of
           Inr text \<Rightarrow> Some text
         | Inl err \<Rightarrow> if staticMessage \<noteq> [] then Some staticMessage else None)
      else if staticMessage \<noteq> [] then Some staticMessage else None)"

subsection \<open>Concrete inputs\<close>

text \<open>
  A task, a client, task runners and states of the simulated world, on which the program is
  run: a repository whose only change is the untracked file \<open>debug.log\<close>
  (\<open>exWorld\<close>), the same after staging (\<open>exStaged\<close>) and after the commit
  (\<open>exCommitted\<close>), a repository without changes (\<open>exClean\<close>), and a
  repository whose only change is in the tracked file \<open>notes.md\<close>, not staged
  (\<open>exModified\<close>), with the state after its commit (\<open>exModifiedCommitted\<close>).
\<close>

definition exTask :: Task where
  "exTask = \<lparr>ID = 1, Path = ''/home/u/notes'', Every = ''5m'', AutoAdd = True, AutoPush = True,
             StaticMsg = ''auto commit'', ExcludePatterns = ''*.log''\<rparr>"

definition exClient :: Client where
  "exClient = \<lparr>BaseURL = ''https://llm.example/v1/'', APIKey = ''secret'', ClientModel = ''small''\<rparr>"

definition exDown :: "error + Response" where
  "exDown = Inl (LibError ''connection refused'')"

definition exAnswer :: "string \<Rightarrow> error + Response" where
  "exAnswer content =
     Inr \<lparr>StatusCode = 200, errorResponse = Inl (LibError ''unexpected end of JSON input''),
          chatResp = Inr [content]\<rparr>"

definition exWorld :: world where
  "exWorld = \<lparr>files = [(''debug.log'', \<lparr>Staging = Untracked, Worktree = Untracked\<rparr>)],
              commits = [], pushes = 0, requests = [], clock = 100, registry = [exTask]\<rparr>"

definition exClean :: world where
  "exClean = exWorld\<lparr>files := [(''README.md'', \<lparr>Staging = Unmodified, Worktree = Unmodified\<rparr>)]\<rparr>"

definition exStaged :: world where
  "exStaged = exWorld\<lparr>files := [(''debug.log'', \<lparr>Staging = Added, Worktree = Unmodified\<rparr>)]\<rparr>"

definition exCommitted :: world where
  "exCommitted =
     exWorld\<lparr>files := [(''debug.log'', \<lparr>Staging = Unmodified, Worktree = Unmodified\<rparr>)],
             commits := [(''auto commit'', [''debug.log''])], clock := 101\<rparr>"



definition exRunner :: TaskRunner where
  "exRunner = \<lparr>tasks = fmempty, lastCheck = 0, stopCh_closed = False\<rparr>"

definition exScheduled :: TaskRunner where
  "exScheduled =
     \<lparr>tasks = fmupd 1 \<lparr>task = exTask\<lparr>Every := ''1h''\<rparr>, nextRun = 500\<rparr> fmempty,
      lastCheck = 0, stopCh_closed = False\<rparr>"

definition exDue :: TaskRunner where
  "exDue = \<lparr>tasks = fmupd 1 \<lparr>task = exTask, nextRun = 100\<rparr> fmempty,
            lastCheck = 95, stopCh_closed = False\<rparr>"

section \<open>Reconciliation: the loops of \<open>loadTasks\<close>\<close>

lemma clockReads_Suc: "clockReads l k (snd (time_Now l w)) = clockReads l (Suc k) w"
  unfolding clockReads_def by (induction k) simp_all

lemma loadLoop_ids:
  "loadLoop l tks r ids w = ((r', ids', logs), w') \<Longrightarrow> ids' = ids \<union> ID ` set tks"
  by (induction tks arbitrary: r ids w r' ids' logs w')
     (fastforce split: option.splits sum.splits prod.splits)+

lemma loadLoop_frame:
  "loadLoop l tks r ids w = ((r', ids', logs), w') \<Longrightarrow>
     lastCheck r' = lastCheck r \<and> stopCh_closed r' = stopCh_closed r"
  by (induction tks arbitrary: r ids w r' ids' logs w')
     (fastforce split: option.splits sum.splits prod.splits)+

lemma loadLoop_other:
  "loadLoop l tks r ids w = ((r', ids', logs), w') \<Longrightarrow> i \<notin> ID ` set tks \<Longrightarrow>
     fmlookup (tasks r') i = fmlookup (tasks r) i"
  by (induction tks arbitrary: r ids w r' ids' logs w')
     (fastforce split: option.splits sum.splits prod.splits)+

lemma loadLoop_keeps_nextRun:
  "loadLoop l tks r ids w = ((r', ids', logs), w') \<Longrightarrow> fmlookup (tasks r) i = Some st \<Longrightarrow>
     \<exists>st'. fmlookup (tasks r') i = Some st' \<and> nextRun st' = nextRun st"
proof (induction tks arbitrary: r ids w r' ids' logs w' st)
  case Nil
  then show ?case by simp
next
  case (Cons tk tks)
  show ?case
  proof (cases "fmlookup (tasks r) (ID tk)")
    case None
    then have ne: "ID tk \<noteq> i" using Cons.prems(2) by auto
    show ?thesis
    proof (cases "time_ParseDuration l (Every tk)")
      case (Inl e)
      with None Cons.prems(1) obtain lg where
        "loadLoop l tks r (insert (ID tk) ids) w = ((r', ids', lg), w')"
        by (auto split: prod.splits)
      from Cons.IH[OF this Cons.prems(2)] show ?thesis .
    next
      case (Inr d)
      obtain now w1 where tn: "time_Now l w = (now, w1)" by (cases "time_Now l w")
      let ?r1 = "r\<lparr>tasks := fmupd (ID tk) \<lparr>task = tk, nextRun = now + d\<rparr> (tasks r)\<rparr>"
      from None Inr tn Cons.prems(1) obtain lg where
        "loadLoop l tks ?r1 (insert (ID tk) ids) w1 = ((r', ids', lg), w')"
        by (auto split: prod.splits)
      moreover have "fmlookup (tasks ?r1) i = Some st" using ne Cons.prems(2) by simp
      ultimately show ?thesis using Cons.IH by blast
    qed
  next
    case (Some ex)
    let ?r1 = "r\<lparr>tasks := fmupd (ID tk) (ex\<lparr>task := tk\<rparr>) (tasks r)\<rparr>"
    from Some Cons.prems(1) obtain lg where
      run: "loadLoop l tks ?r1 (insert (ID tk) ids) w = ((r', ids', lg), w')"
      by (auto split: prod.splits)
    have "\<exists>st1. fmlookup (tasks ?r1) i = Some st1 \<and> nextRun st1 = nextRun st"
      using Some Cons.prems(2) by (cases "ID tk = i") auto
    then obtain st1 where "fmlookup (tasks ?r1) i = Some st1" "nextRun st1 = nextRun st" by blast
    with Cons.IH[OF run this(1)] show ?thesis by auto
  qed
qed


lemma loadLoop_step:
  assumes "loadLoop l (t0 # tks) r ids w = ((r', ids', logs), w')"
  shows "\<exists>r1 w1 lg. loadLoop l tks r1 (insert (ID t0) ids) w1 = ((r', ids', lg), w') \<and>
           (\<forall>i. i \<noteq> ID t0 \<longrightarrow> fmlookup (tasks r1) i = fmlookup (tasks r) i) \<and>
           set lg \<subseteq> set logs \<and> (w1 = w \<or> w1 = snd (time_Now l w))"
proof (cases "fmlookup (tasks r) (ID t0)")
  case None
  show ?thesis
  proof (cases "time_ParseDuration l (Every t0)")
    case (Inl e)
    with None assms show ?thesis by (fastforce split: prod.splits)
  next
    case (Inr d)
    obtain now w1 where "time_Now l w = (now, w1)" by (cases "time_Now l w")
    with None Inr assms show ?thesis by (fastforce split: prod.splits)
  qed
next
  case (Some ex)
  with assms show ?thesis by (fastforce split: prod.splits)
qed

lemma loadLoop_existing:
  "loadLoop l tks r ids w = ((r', ids', logs), w') \<Longrightarrow> fmlookup (tasks r) (ID tk) = Some st \<Longrightarrow>
   tk \<in> set tks \<Longrightarrow> distinct (map ID tks) \<Longrightarrow>
     fmlookup (tasks r') (ID tk) = Some (st\<lparr>task := tk\<rparr>)"
proof (induction tks arbitrary: r ids w r' ids' logs w' st)
  case Nil
  then show ?case by simp
next
  case (Cons t0 tks)
  show ?case
  proof (cases "t0 = tk")
    case True
    let ?r1 = "r\<lparr>tasks := fmupd (ID tk) (st\<lparr>task := tk\<rparr>) (tasks r)\<rparr>"
    from True Cons.prems(1,2) obtain lg where
      run: "loadLoop l tks ?r1 (insert (ID tk) ids) w = ((r', ids', lg), w')"
      by (auto split: prod.splits)
    have "ID tk \<notin> ID ` set tks" using True Cons.prems(4) by auto
    from loadLoop_other[OF run this] show ?thesis by simp
  next
    case False
    then have mem: "tk \<in> set tks" and ne: "ID t0 \<noteq> ID tk" and dist: "distinct (map ID tks)"
      using Cons.prems(3,4) by auto
    obtain r1 w1 lg where
      run: "loadLoop l tks r1 (insert (ID t0) ids) w1 = ((r', ids', lg), w')"
      and same: "fmlookup (tasks r1) (ID tk) = fmlookup (tasks r) (ID tk)"
      using loadLoop_step[OF Cons.prems(1)] ne by metis
    from Cons.IH[OF run _ mem dist] same Cons.prems(2) show ?thesis by simp
  qed
qed

lemma loadLoop_new:
  "loadLoop l tks r ids w = ((r', ids', logs), w') \<Longrightarrow> fmlookup (tasks r) (ID tk) = None \<Longrightarrow>
   tk \<in> set tks \<Longrightarrow> distinct (map ID tks) \<Longrightarrow>
     (case time_ParseDuration l (Every tk) of
        Inr d \<Rightarrow>
          (\<exists>k<length tks. fmlookup (tasks r') (ID tk) =
             Some \<lparr>task = tk, nextRun = fst (time_Now l (clockReads l k w)) + d\<rparr>)
      | Inl err \<Rightarrow>
          fmlookup (tasks r') (ID tk) = None \<and>
          logger_Printf ''Warning: Invalid duration for task %d (%s): %v''
            [D (ID tk), S (Path tk), V err] \<in> set logs)"
proof (induction tks arbitrary: r ids w r' ids' logs w')
  case Nil
  then show ?case by simp
next
  case (Cons t0 tks)
  show ?case
  proof (cases "t0 = tk")
    case True
    then have notin: "ID tk \<notin> ID ` set tks" using Cons.prems(4) by auto
    show ?thesis
    proof (cases "time_ParseDuration l (Every tk)")
      case (Inl e)
      with True Cons.prems(1,2) obtain lg where
        run: "loadLoop l tks r (insert (ID tk) ids) w = ((r', ids', lg), w')"
        and lg: "logs = logger_Printf ''Warning: Invalid duration for task %d (%s): %v''
                   [D (ID tk), S (Path tk), V e] # lg"
        by (auto split: prod.splits)
      from loadLoop_other[OF run notin] Cons.prems(2) lg Inl show ?thesis by simp
    next
      case (Inr d)
      obtain now w1 where tn: "time_Now l w = (now, w1)" by (cases "time_Now l w")
      let ?r1 = "r\<lparr>tasks := fmupd (ID tk) \<lparr>task = tk, nextRun = now + d\<rparr> (tasks r)\<rparr>"
      from True Inr tn Cons.prems(1,2) obtain lg where
        run: "loadLoop l tks ?r1 (insert (ID tk) ids) w1 = ((r', ids', lg), w')"
        by (auto split: prod.splits)
      from loadLoop_other[OF run notin]
      have "fmlookup (tasks r') (ID tk) = Some \<lparr>task = tk, nextRun = fst (time_Now l (clockReads l 0 w)) + d\<rparr>"
        using tn by (simp add: clockReads_def)
      then show ?thesis using Inr by auto
    qed
  next
    case False
    then have mem: "tk \<in> set tks" and ne: "ID t0 \<noteq> ID tk" and dist: "distinct (map ID tks)"
      using Cons.prems(3,4) by auto
    obtain r1 w1 lg where
      run: "loadLoop l tks r1 (insert (ID t0) ids) w1 = ((r', ids', lg), w')"
      and same: "fmlookup (tasks r1) (ID tk) = fmlookup (tasks r) (ID tk)"
      and lg: "set lg \<subseteq> set logs"
      and w1: "w1 = w \<or> w1 = snd (time_Now l w)"
      using loadLoop_step[OF Cons.prems(1)] ne by metis
    have IH: "(case time_ParseDuration l (Every tk) of
        Inr d \<Rightarrow>
          (\<exists>k<length tks. fmlookup (tasks r') (ID tk) =
             Some \<lparr>task = tk, nextRun = fst (time_Now l (clockReads l k w1)) + d\<rparr>)
      | Inl err \<Rightarrow>
          fmlookup (tasks r') (ID tk) = None \<and>
          logger_Printf ''Warning: Invalid duration for task %d (%s): %v''
            [D (ID tk), S (Path tk), V err] \<in> set lg)"
      using Cons.IH[OF run _ mem dist] same Cons.prems(2) by simp
    show ?thesis
    proof (cases "time_ParseDuration l (Every tk)")
      case (Inl e)
      with IH lg show ?thesis by auto
    next
      case (Inr d)
      with IH obtain k where k: "k < length tks"
        "fmlookup (tasks r') (ID tk) =
             Some \<lparr>task = tk, nextRun = fst (time_Now l (clockReads l k w1)) + d\<rparr>" by auto
      from w1 show ?thesis
      proof
        assume "w1 = w"
        with k have "fmlookup (tasks r') (ID tk) =
             Some \<lparr>task = tk, nextRun = fst (time_Now l (clockReads l k w)) + d\<rparr>"
          by simp
        moreover have "k < length (t0 # tks)" using k(1) by simp
        ultimately show ?thesis using Inr by auto
      next
        assume "w1 = snd (time_Now l w)"
        with k have "fmlookup (tasks r') (ID tk) =
             Some \<lparr>task = tk, nextRun = fst (time_Now l (clockReads l (Suc k) w)) + d\<rparr>"
          by (simp add: clockReads_Suc)
        moreover have "Suc k < length (t0 # tks)" using k(1) by simp
        ultimately show ?thesis using Inr by auto
      qed
    qed
  qed
qed

lemma loadLoop_world:
  "loadLoop l tks r ids w = ((r', ids', logs), w') \<Longrightarrow> \<exists>k\<le>length tks. w' = clockReads l k w"
proof (induction tks arbitrary: r ids w r' ids' logs w')
  case Nil
  then show ?case by (simp add: clockReads_def)
next
  case (Cons t0 tks)
  from loadLoop_step[OF Cons.prems] obtain r1 w1 lg where
    run: "loadLoop l tks r1 (insert (ID t0) ids) w1 = ((r', ids', lg), w')"
    and w1: "w1 = w \<or> w1 = snd (time_Now l w)" by blast
  from Cons.IH[OF run] obtain k where k: "k \<le> length tks" "w' = clockReads l k w1" by blast
  from w1 show ?case
  proof
    assume "w1 = w"
    with k have "k \<le> length (t0 # tks)" "w' = clockReads l k w" by simp_all
    then show ?thesis by blast
  next
    assume "w1 = snd (time_Now l w)"
    with k have "Suc k \<le> length (t0 # tks)" "w' = clockReads l (Suc k) w"
      by (simp_all add: clockReads_Suc)
    then show ?thesis by blast
  qed
qed

lemma removeLoop_lookup:
  "removeLoop ks ids r = (r', logs) \<Longrightarrow>
     fmlookup (tasks r') i = (if i \<in> set ks \<and> i \<notin> ids then None else fmlookup (tasks r) i)"
  by (induction ks arbitrary: r r' logs) (auto split: if_splits prod.splits)

lemma removeLoop_frame:
  "removeLoop ks ids r = (r', logs) \<Longrightarrow>
     lastCheck r' = lastCheck r \<and> stopCh_closed r' = stopCh_closed r"
  by (induction ks arbitrary: r r' logs) (fastforce split: if_splits prod.splits)+

lemma loadTasks_unfold:
  assumes "GetAllTasks l w = Inr tks"
  shows "\<exists>r1 logs1 w1 r2 logs2.
           loadLoop l tks r {} w = ((r1, ID ` set tks, logs1), w1) \<and>
           removeLoop (map_range l w1 (fmdom (tasks r1))) (ID ` set tks) r1 = (r2, logs2) \<and>
           loadTasks l r w =
             ((None, r2\<lparr>lastCheck := fst (time_Now l w1)\<rparr>, logs1 @ logs2), snd (time_Now l w1))"
proof -
  obtain r1 ids logs1 w1 where ll: "loadLoop l tks r {} w = ((r1, ids, logs1), w1)"
    by (metis prod.exhaust)
  from loadLoop_ids[OF ll] have ids: "ids = ID ` set tks" by simp
  obtain r2 logs2 where rl: "removeLoop (map_range l w1 (fmdom (tasks r1))) ids r1 = (r2, logs2)"
    by (metis prod.exhaust)
  show ?thesis using assms ll rl ids
    by (auto simp: loadTasks_def split: prod.splits)
qed

lemma processLoop_frame:
  "processLoop l now ks r = (r', disp, logs) \<Longrightarrow>
     lastCheck r' = lastCheck r \<and> stopCh_closed r' = stopCh_closed r"
  by (induction ks arbitrary: r r' disp logs)
     (fastforce split: option.splits if_splits sum.splits prod.splits)+

lemma processLoop_step:
  assumes "processLoop l now (j # ks) r = (r', disp, logs)"
  shows "\<exists>r1 d1 lg1. processLoop l now ks r1 = (r', d1, lg1) \<and>
           (\<forall>i. i \<noteq> j \<longrightarrow> fmlookup (tasks r1) i = fmlookup (tasks r) i) \<and>
           fmlookup (tasks r1) j = Option.bind (fmlookup (tasks r) j) (rescheduled l now) \<and>
           disp = (case dueTask now r j of None \<Rightarrow> [] | Some tk \<Rightarrow> [tk]) @ d1 \<and>
           set lg1 \<subseteq> set logs \<and>
           (\<forall>st err. fmlookup (tasks r) j = Some st \<and> nextRun st < now \<and>
              time_ParseDuration l (Every (task st)) = Inl err \<longrightarrow>
              logger_Printf ''Error parsing duration for task %d: %v'' [D j, V err] \<in> set logs)"
proof (cases "fmlookup (tasks r) j")
  case None
  with assms have "processLoop l now ks r = (r', disp, logs)" by simp
  with None show ?thesis by (auto simp: dueTask_def intro!: exI[of _ r] exI[of _ logs])
next
  case (Some st)
  show ?thesis
  proof (cases "nextRun st < now")
    case False
    with Some assms have "processLoop l now ks r = (r', disp, logs)" by simp
    with Some False show ?thesis
      by (intro exI[of _ r] exI[of _ disp] exI[of _ logs]) (auto simp: dueTask_def rescheduled_def)
  next
    case True
    show ?thesis
    proof (cases "time_ParseDuration l (Every (task st))")
      case (Inl e)
      obtain r1 d1 lg1 where
        "processLoop l now ks (r\<lparr>tasks := fmdrop j (tasks r)\<rparr>) = (r1, d1, lg1)"
        by (metis prod.exhaust)
      with Some True Inl assms show ?thesis
        by (intro exI[of _ "r\<lparr>tasks := fmdrop j (tasks r)\<rparr>"] exI[of _ d1] exI[of _ lg1])
           (auto simp: dueTask_def rescheduled_def)
    next
      case (Inr d)
      obtain r1 d1 lg1 where
        "processLoop l now ks (r\<lparr>tasks := fmupd j (st\<lparr>nextRun := now + d\<rparr>) (tasks r)\<rparr>) = (r1, d1, lg1)"
        by (metis prod.exhaust)
      with Some True Inr assms show ?thesis
        by (intro exI[of _ "r\<lparr>tasks := fmupd j (st\<lparr>nextRun := now + d\<rparr>) (tasks r)\<rparr>"]
              exI[of _ d1] exI[of _ lg1])
           (auto simp: dueTask_def rescheduled_def)
    qed
  qed
qed

lemma processLoop_lookup:
  "processLoop l now ks r = (r', disp, logs) \<Longrightarrow> distinct ks \<Longrightarrow>
     fmlookup (tasks r') i =
       (if i \<in> set ks then Option.bind (fmlookup (tasks r) i) (rescheduled l now)
        else fmlookup (tasks r) i)"
proof (induction ks arbitrary: r r' disp logs)
  case Nil
  then show ?case by simp
next
  case (Cons j ks)
  from processLoop_step[OF Cons.prems(1)] obtain r1 d1 lg1 where
    run: "processLoop l now ks r1 = (r', d1, lg1)"
    and other: "\<And>i. i \<noteq> j \<Longrightarrow> fmlookup (tasks r1) i = fmlookup (tasks r) i"
    and self: "fmlookup (tasks r1) j = Option.bind (fmlookup (tasks r) j) (rescheduled l now)"
    by blast
  have dist: "distinct ks" and notin: "j \<notin> set ks" using Cons.prems(2) by auto
  note IH = Cons.IH[OF run dist]
  show ?case
  proof (cases "i = j")
    case True
    with IH notin self show ?thesis by simp
  next
    case False
    with IH other show ?thesis by simp
  qed
qed

lemma map_filter_agree:
  "(\<And>x. x \<in> set xs \<Longrightarrow> f x = g x) \<Longrightarrow> List.map_filter f xs = List.map_filter g xs"
proof (induction xs)
  case Nil
  show ?case by simp
next
  case (Cons a xs)
  have "f a = g a" using Cons.prems by simp
  moreover have "List.map_filter f xs = List.map_filter g xs" using Cons by simp
  ultimately show ?case by (simp split: option.splits)
qed

lemma processLoop_dispatched:
  "processLoop l now ks r = (r', disp, logs) \<Longrightarrow> distinct ks \<Longrightarrow>
     disp = List.map_filter (dueTask now r) ks"
proof (induction ks arbitrary: r r' disp logs)
  case Nil
  then show ?case by simp
next
  case (Cons j ks)
  from processLoop_step[OF Cons.prems(1)] obtain r1 d1 lg1 where
    run: "processLoop l now ks r1 = (r', d1, lg1)"
    and other: "\<And>i. i \<noteq> j \<Longrightarrow> fmlookup (tasks r1) i = fmlookup (tasks r) i"
    and disp: "disp = (case dueTask now r j of None \<Rightarrow> [] | Some tk \<Rightarrow> [tk]) @ d1"
    by blast
  have dist: "distinct ks" and notin: "j \<notin> set ks" using Cons.prems(2) by auto
  have "List.map_filter (dueTask now r1) ks = List.map_filter (dueTask now r) ks"
  proof (rule map_filter_agree)
    fix i assume "i \<in> set ks"
    with notin have "i \<noteq> j" by auto
    from other[OF this] show "dueTask now r1 i = dueTask now r i" by (simp add: dueTask_def)
  qed
  with Cons.IH[OF run dist] disp show ?case
    by (simp split: option.splits)
qed

lemma processLoop_warning:
  "processLoop l now ks r = (r', disp, logs) \<Longrightarrow> distinct ks \<Longrightarrow> i \<in> set ks \<Longrightarrow>
   fmlookup (tasks r) i = Some st \<Longrightarrow> nextRun st < now \<Longrightarrow>
   time_ParseDuration l (Every (task st)) = Inl err \<Longrightarrow>
     logger_Printf ''Error parsing duration for task %d: %v'' [D i, V err] \<in> set logs"
proof (induction ks arbitrary: r r' disp logs)
  case Nil
  then show ?case by simp
next
  case (Cons j ks)
  from processLoop_step[OF Cons.prems(1)] obtain r1 d1 lg1 where
    run: "processLoop l now ks r1 = (r', d1, lg1)"
    and other: "\<And>i. i \<noteq> j \<Longrightarrow> fmlookup (tasks r1) i = fmlookup (tasks r) i"
    and lg: "set lg1 \<subseteq> set logs"
    and warn: "\<And>st err. fmlookup (tasks r) j = Some st \<Longrightarrow> nextRun st < now \<Longrightarrow>
              time_ParseDuration l (Every (task st)) = Inl err \<Longrightarrow>
              logger_Printf ''Error parsing duration for task %d: %v'' [D j, V err] \<in> set logs"
    by blast
  show ?case
  proof (cases "i = j")
    case True
    with warn Cons.prems show ?thesis by blast
  next
    case False
    with Cons.prems have "i \<in> set ks" "distinct ks" "fmlookup (tasks r1) i = Some st"
      using other by auto
    from Cons.IH[OF run this(2) this(1) this(3) Cons.prems(5,6)] lg show ?thesis by blast
  qed
qed

section \<open>Facts about the simulated world\<close>

lemma taskState_update_task: "st\<lparr>task := tk\<rparr> = \<lparr>task = tk, nextRun = nextRun st\<rparr>"
  by (cases st) simp

lemma scanRows_Inr: "scanRows (map Inr tks) = Inr tks"
  by (induction tks) simp_all

lemma GetAllTasks_sim: "GetAllTasks (sim reply remote) w = Inr (registry w)"
  by (simp add: GetAllTasks_def sim_def scanRows_Inr)

lemma rangeOK_sim: "rangeOK (sim reply remote)"
  by (simp add: rangeOK_def sim_def sorted_list_of_fset.rep_eq)

lemma time_Now_sim: "time_Now (sim reply remote) w = (clock w, w\<lparr>clock := clock w + 1\<rparr>)"
  by (simp add: sim_def)

lemma time_ParseDuration_sim: "time_ParseDuration (sim reply remote) = simParseDuration"
  by (simp add: sim_def)

section \<open>Reconciliation: \<open>loadTasks\<close>\<close>

text \<open>
  Claim C6. If reading the registry fails, \<open>loadTasks\<close> returns that error and leaves
  the task runner, and with it the schedule, exactly as it was; it logs nothing and changes
  nothing outside. If the read succeeds, \<open>loadTasks\<close> returns no error. So an error
  never comes with a schedule that was changed in part.
\<close>

theorem loadTasks_registry_failure:
  "(\<forall>e. GetAllTasks l w = Inl e \<longrightarrow> loadTasks l r w = ((Some e, r, []), w)) \<and>
   (\<forall>tks. GetAllTasks l w = Inr tks \<longrightarrow> fst (fst (loadTasks l r w)) = None)"
proof (intro conjI allI impI)
  fix e assume "GetAllTasks l w = Inl e"
  then show "loadTasks l r w = ((Some e, r, []), w)" by (simp add: loadTasks_def)
next
  fix tks assume "GetAllTasks l w = Inr tks"
  from loadTasks_unfold[OF this, of r] show "fst (fst (loadTasks l r w)) = None" by auto
qed

theorem loadTasks_registry_failure_witness:
  "GetAllTasks ((sim exDown None)\<lparr>sql_Query := \<lambda>w. Inl (LibError ''database is locked'')\<rparr>) exWorld
     = Inl (fmt_Errorf_w ''failed to query tasks'' (LibError ''database is locked'')) \<and>
   loadTasks ((sim exDown None)\<lparr>sql_Query := \<lambda>w. Inl (LibError ''database is locked'')\<rparr>) exRunner exWorld
     = ((Some (fmt_Errorf_w ''failed to query tasks'' (LibError ''database is locked'')), exRunner, []),
        exWorld) \<and>
   GetAllTasks (sim exDown None) exWorld = Inr [exTask] \<and>
   fst (fst (loadTasks (sim exDown None) exRunner exWorld)) = None"
proof -
  let ?L = "(sim exDown None)\<lparr>sql_Query := \<lambda>w. Inl (LibError ''database is locked'')\<rparr>"
  have h1: "GetAllTasks ?L exWorld
     = Inl (fmt_Errorf_w ''failed to query tasks'' (LibError ''database is locked''))"
    by (simp add: GetAllTasks_def)
  have h2: "GetAllTasks (sim exDown None) exWorld = Inr [exTask]"
    by (simp add: GetAllTasks_sim exWorld_def)
  from loadTasks_registry_failure[of ?L exWorld exRunner] h1
       loadTasks_registry_failure[of "sim exDown None" exWorld exRunner] h2
  show ?thesis by simp
qed

text \<open>
  Claim C3. Let the registry be read with distinct IDs, and let \<open>tk\<close> be a record
  whose ID has no entry in the schedule. \<open>loadTasks\<close> succeeds. If the interval of
  \<open>tk\<close> parses to \<open>d\<close>, the schedule then holds an entry for \<open>tk\<close> whose
  \<open>nextRun\<close> is \<open>d\<close> after a reading of the clock taken during this call (the
  reading made when the entry is created); if it does not parse, the warning is logged and
  the schedule holds no entry for that ID. The time recorded in \<open>lastCheck\<close> is the last
  reading of the clock in the call.
\<close>

theorem loadTasks_new_record:
  assumes "GetAllTasks l w = Inr tks" and "distinct (map ID tks)" and "tk \<in> set tks"
    and "fmlookup (tasks r) (ID tk) = None"
  shows "\<exists>r' logs w'. loadTasks l r w = ((None, r', logs), w') \<and>
           (case time_ParseDuration l (Every tk) of
              Inr d \<Rightarrow>
                (\<exists>k<length tks. fmlookup (tasks r') (ID tk) =
                   Some \<lparr>task = tk, nextRun = fst (time_Now l (clockReads l k w)) + d\<rparr>)
            | Inl err \<Rightarrow>
                fmlookup (tasks r') (ID tk) = None \<and>
                logger_Printf ''Warning: Invalid duration for task %d (%s): %v''
                  [D (ID tk), S (Path tk), V err] \<in> set logs) \<and>
           (\<exists>k\<le>length tks. lastCheck r' = fst (time_Now l (clockReads l k w)))"
proof -
  from loadTasks_unfold[OF assms(1), of r] obtain r1 logs1 w1 r2 logs2 where
    ll: "loadLoop l tks r {} w = ((r1, ID ` set tks, logs1), w1)"
    and rl: "removeLoop (map_range l w1 (fmdom (tasks r1))) (ID ` set tks) r1 = (r2, logs2)"
    and lt: "loadTasks l r w =
             ((None, r2\<lparr>lastCheck := fst (time_Now l w1)\<rparr>, logs1 @ logs2), snd (time_Now l w1))"
    by blast
  have keep: "fmlookup (tasks r2) (ID tk) = fmlookup (tasks r1) (ID tk)"
    using removeLoop_lookup[OF rl, of "ID tk"] assms(3) by simp
  from loadLoop_world[OF ll] obtain k where k: "k \<le> length tks" "w1 = clockReads l k w" by blast
  have new: "(case time_ParseDuration l (Every tk) of
              Inr d \<Rightarrow>
                (\<exists>k<length tks. fmlookup (tasks r1) (ID tk) =
                   Some \<lparr>task = tk, nextRun = fst (time_Now l (clockReads l k w)) + d\<rparr>)
            | Inl err \<Rightarrow>
                fmlookup (tasks r1) (ID tk) = None \<and>
                logger_Printf ''Warning: Invalid duration for task %d (%s): %v''
                  [D (ID tk), S (Path tk), V err] \<in> set logs1)"
    by (rule loadLoop_new[OF ll assms(4,3,2)])
  show ?thesis
  proof (intro exI conjI)
    show "loadTasks l r w =
             ((None, r2\<lparr>lastCheck := fst (time_Now l w1)\<rparr>, logs1 @ logs2), snd (time_Now l w1))"
      by (rule lt)
    show "case time_ParseDuration l (Every tk) of
              Inr d \<Rightarrow>
                (\<exists>k<length tks. fmlookup (tasks (r2\<lparr>lastCheck := fst (time_Now l w1)\<rparr>)) (ID tk) =
                   Some \<lparr>task = tk, nextRun = fst (time_Now l (clockReads l k w)) + d\<rparr>)
            | Inl err \<Rightarrow>
                fmlookup (tasks (r2\<lparr>lastCheck := fst (time_Now l w1)\<rparr>)) (ID tk) = None \<and>
                logger_Printf ''Warning: Invalid duration for task %d (%s): %v''
                  [D (ID tk), S (Path tk), V err] \<in> set (logs1 @ logs2)"
      using new keep by (auto split: sum.splits)
    show "k \<le> length tks" by (rule k(1))
    show "lastCheck (r2\<lparr>lastCheck := fst (time_Now l w1)\<rparr>) = fst (time_Now l (clockReads l k w))"
      using k(2) by simp
  qed
qed

lemma simParseDuration_5m: "simParseDuration ''5m'' = Inr 300000000000"
  by (simp add: simParseDuration_def simDigits_def simIsDigit_def Second_def)

lemma simParseDuration_soon: "simParseDuration ''soon'' = Inl (LibError ''time: invalid duration'')"
  by (simp add: simParseDuration_def simDigits_def simIsDigit_def Second_def)

lemma processTasks_unfold:
  "processTasks l r w =
     (processLoop l (fst (time_Now l w)) (map_range l (snd (time_Now l w)) (fmdom (tasks r))) r,
      snd (time_Now l w))"
  by (simp add: processTasks_def split: prod.splits)

lemma processTasks_lookup:
  assumes "rangeOK l"
  shows "fmlookup (tasks (fst (fst (processTasks l r w)))) i =
           Option.bind (fmlookup (tasks r) i) (rescheduled l (fst (time_Now l w)))"
proof -
  let ?ks = "map_range l (snd (time_Now l w)) (fmdom (tasks r))"
  obtain r' disp logs where pl: "processLoop l (fst (time_Now l w)) ?ks r = (r', disp, logs)"
    by (metis prod.exhaust)
  have dist: "distinct ?ks" and cover: "set ?ks = fset (fmdom (tasks r))"
    using assms by (simp_all add: rangeOK_def)
  have "i \<notin> set ?ks \<Longrightarrow> fmlookup (tasks r) i = None"
    using cover by (simp add: fmdom_notD)
  with processLoop_lookup[OF pl dist, of i] pl show ?thesis
    by (auto simp: processTasks_unfold)
qed

theorem loadTasks_new_record_witness:
  "GetAllTasks (sim exDown None) exWorld = Inr [exTask] \<and>
   distinct (map ID [exTask]) \<and> exTask \<in> set [exTask] \<and>
   fmlookup (tasks exRunner) (ID exTask) = None \<and>
   (\<exists>r' logs w'. loadTasks (sim exDown None) exRunner exWorld = ((None, r', logs), w') \<and>
      fmlookup (tasks r') 1 = Some \<lparr>task = exTask, nextRun = 100 + 300000000000\<rparr>) \<and>
   GetAllTasks (sim exDown None) (exWorld\<lparr>registry := [exTask\<lparr>Every := ''soon''\<rparr>]\<rparr>)
     = Inr [exTask\<lparr>Every := ''soon''\<rparr>] \<and>
   (\<exists>r' logs w'. loadTasks (sim exDown None) exRunner (exWorld\<lparr>registry := [exTask\<lparr>Every := ''soon''\<rparr>]\<rparr>)
        = ((None, r', logs), w') \<and>
      fmlookup (tasks r') 1 = None \<and>
      logger_Printf ''Warning: Invalid duration for task %d (%s): %v''
        [D 1, S ''/home/u/notes'', V (LibError ''time: invalid duration'')] \<in> set logs)"
proof -
  let ?L = "sim exDown None"
  let ?bad = "exTask\<lparr>Every := ''soon''\<rparr>"
  let ?w2 = "exWorld\<lparr>registry := [?bad]\<rparr>"
  have h1: "GetAllTasks ?L exWorld = Inr [exTask]"
    by (simp add: GetAllTasks_sim exWorld_def)
  have h2: "distinct (map ID [exTask])" by simp
  have h3: "exTask \<in> set [exTask]" by simp
  have h4: "fmlookup (tasks exRunner) (ID exTask) = None" by (simp add: exRunner_def)
  have g1: "GetAllTasks ?L ?w2 = Inr [?bad]" by (simp add: GetAllTasks_sim)
  have g2: "distinct (map ID [?bad])" by simp
  have g3: "?bad \<in> set [?bad]" by simp
  have g4: "fmlookup (tasks exRunner) (ID ?bad) = None" by (simp add: exRunner_def)
  have c1: "\<exists>r' logs w'. loadTasks ?L exRunner exWorld = ((None, r', logs), w') \<and>
      fmlookup (tasks r') 1 = Some \<lparr>task = exTask, nextRun = 100 + 300000000000\<rparr>"
    using loadTasks_new_record[OF h1 h2 h3 h4]
    by (auto simp: time_ParseDuration_sim time_Now_sim simParseDuration_5m exTask_def
                   exWorld_def clockReads_def)
  have c2: "\<exists>r' logs w'. loadTasks ?L exRunner ?w2 = ((None, r', logs), w') \<and>
      fmlookup (tasks r') 1 = None \<and>
      logger_Printf ''Warning: Invalid duration for task %d (%s): %v''
        [D 1, S ''/home/u/notes'', V (LibError ''time: invalid duration'')] \<in> set logs"
    using loadTasks_new_record[OF g1 g2 g3 g4]
    by (auto simp: time_ParseDuration_sim simParseDuration_soon exTask_def)
  from h1 h2 h3 h4 c1 g1 c2 show ?thesis by blast
qed

text \<open>
  Claim C4. Let the registry be read with distinct IDs, and let \<open>tk\<close> be a record whose
  ID has the entry \<open>st\<close> in the schedule. After \<open>loadTasks\<close> the entry holds the record
  \<open>tk\<close> in place of the old one and the \<open>nextRun\<close> of \<open>st\<close>, whatever the
  interval of \<open>tk\<close> is. The interval of \<open>tk\<close> is used by the next \<open>processTasks\<close>
  that finds the entry due: it sets \<open>nextRun\<close> to the time of that tick plus the new
  interval (or drops the entry if the new interval does not parse); a tick at which the
  entry is not due leaves it as it is.
\<close>

theorem loadTasks_existing_record:
  assumes "GetAllTasks l w = Inr tks" and "distinct (map ID tks)" and "tk \<in> set tks"
    and "fmlookup (tasks r) (ID tk) = Some st" and "rangeOK l"
  shows "\<exists>r' logs w'. loadTasks l r w = ((None, r', logs), w') \<and>
           fmlookup (tasks r') (ID tk) = Some \<lparr>task = tk, nextRun = nextRun st\<rparr> \<and>
           (\<forall>v. fmlookup (tasks (fst (fst (processTasks l r' v)))) (ID tk) =
                  (if nextRun st < fst (time_Now l v) then
                     (case time_ParseDuration l (Every tk) of
                        Inr d \<Rightarrow> Some \<lparr>task = tk, nextRun = fst (time_Now l v) + d\<rparr>
                      | Inl err \<Rightarrow> None)
                   else Some \<lparr>task = tk, nextRun = nextRun st\<rparr>))"
proof -
  from loadTasks_unfold[OF assms(1), of r] obtain r1 logs1 w1 r2 logs2 where
    ll: "loadLoop l tks r {} w = ((r1, ID ` set tks, logs1), w1)"
    and rl: "removeLoop (map_range l w1 (fmdom (tasks r1))) (ID ` set tks) r1 = (r2, logs2)"
    and lt: "loadTasks l r w =
             ((None, r2\<lparr>lastCheck := fst (time_Now l w1)\<rparr>, logs1 @ logs2), snd (time_Now l w1))"
    by blast
  let ?r' = "r2\<lparr>lastCheck := fst (time_Now l w1)\<rparr>"
  have "fmlookup (tasks r2) (ID tk) = fmlookup (tasks r1) (ID tk)"
    using removeLoop_lookup[OF rl, of "ID tk"] assms(3) by simp
  with loadLoop_existing[OF ll assms(4,3,2)]
  have entry: "fmlookup (tasks ?r') (ID tk) = Some \<lparr>task = tk, nextRun = nextRun st\<rparr>"
    by (simp add: taskState_update_task)
  have tick: "fmlookup (tasks (fst (fst (processTasks l ?r' v)))) (ID tk) =
                  (if nextRun st < fst (time_Now l v) then
                     (case time_ParseDuration l (Every tk) of
                        Inr d \<Rightarrow> Some \<lparr>task = tk, nextRun = fst (time_Now l v) + d\<rparr>
                      | Inl err \<Rightarrow> None)
                   else Some \<lparr>task = tk, nextRun = nextRun st\<rparr>)" for v
    using processTasks_lookup[OF assms(5), of ?r' v "ID tk"] entry
    by (simp add: rescheduled_def split: sum.splits)
  from lt entry tick show ?thesis by blast
qed

section \<open>Invariants of the schedule\<close>

lemma keysAreIDs_iff:
  "keysAreIDs r \<longleftrightarrow> (\<forall>i st. fmlookup (tasks r) i = Some st \<longrightarrow> ID (task st) = i)"
  by (simp add: keysAreIDs_def fmpred_iff)

lemma keysAreIDs_NewTaskRunner: "keysAreIDs (fst (NewTaskRunner l w))"
  by (simp add: NewTaskRunner_def keysAreIDs_def case_prod_beta)

lemma clockReads_add: "clockReads l k (clockReads l m w) = clockReads l (k + m) w"
  by (simp add: clockReads_def funpow_add)

lemma clockReads_0: "clockReads l 0 w = w"
  by (simp add: clockReads_def)

lemma clockReads_1: "clockReads l (Suc 0) w = snd (time_Now l w)"
  by (simp add: clockReads_def)

lemma loadLoop_keysAreIDs:
  "loadLoop l tks r ids w = ((r', ids', logs), w') \<Longrightarrow> keysAreIDs r \<Longrightarrow> keysAreIDs r'"
proof (induction tks arbitrary: r ids w r' ids' logs w')
  case Nil
  then show ?case by simp
next
  case (Cons t0 tks)
  show ?case
  proof (cases "fmlookup (tasks r) (ID t0)")
    case None
    show ?thesis
    proof (cases "time_ParseDuration l (Every t0)")
      case (Inl e)
      with None Cons.prems(1) obtain lg where
        "loadLoop l tks r (insert (ID t0) ids) w = ((r', ids', lg), w')"
        by (auto split: prod.splits)
      from Cons.IH[OF this Cons.prems(2)] show ?thesis .
    next
      case (Inr d)
      obtain now w1 where tn: "time_Now l w = (now, w1)" by (cases "time_Now l w")
      let ?r1 = "r\<lparr>tasks := fmupd (ID t0) \<lparr>task = t0, nextRun = now + d\<rparr> (tasks r)\<rparr>"
      from None Inr tn Cons.prems(1) obtain lg where
        run: "loadLoop l tks ?r1 (insert (ID t0) ids) w1 = ((r', ids', lg), w')"
        by (auto split: prod.splits)
      have "keysAreIDs ?r1" using Cons.prems(2) by (auto simp: keysAreIDs_iff)
      from Cons.IH[OF run this] show ?thesis .
    qed
  next
    case (Some ex)
    let ?r1 = "r\<lparr>tasks := fmupd (ID t0) (ex\<lparr>task := t0\<rparr>) (tasks r)\<rparr>"
    from Some Cons.prems(1) obtain lg where
      run: "loadLoop l tks ?r1 (insert (ID t0) ids) w = ((r', ids', lg), w')"
      by (auto split: prod.splits)
    have "keysAreIDs ?r1" using Cons.prems(2) by (auto simp: keysAreIDs_iff)
    from Cons.IH[OF run this] show ?thesis .
  qed
qed

lemma removeLoop_keysAreIDs:
  "removeLoop ks ids r = (r', logs) \<Longrightarrow> keysAreIDs r \<Longrightarrow> keysAreIDs r'"
  unfolding keysAreIDs_iff
  using removeLoop_lookup[of ks ids r r' logs] by (metis option.distinct(1))

lemma loadTasks_cases:
  obtains (fails) e where "GetAllTasks l w = Inl e" "loadTasks l r w = ((Some e, r, []), w)"
  | (reads) tks r1 logs1 w1 r2 logs2 where "GetAllTasks l w = Inr tks"
      "loadLoop l tks r {} w = ((r1, ID ` set tks, logs1), w1)"
      "removeLoop (map_range l w1 (fmdom (tasks r1))) (ID ` set tks) r1 = (r2, logs2)"
      "loadTasks l r w =
         ((None, r2\<lparr>lastCheck := fst (time_Now l w1)\<rparr>, logs1 @ logs2), snd (time_Now l w1))"
proof (cases "GetAllTasks l w")
  case (Inl e)
  then have "loadTasks l r w = ((Some e, r, []), w)" by (simp add: loadTasks_def)
  with Inl show ?thesis by (rule fails)
next
  case (Inr tks)
  from loadTasks_unfold[OF Inr, of r] Inr show ?thesis using reads by blast
qed

lemma loadTasks_keysAreIDs:
  assumes "keysAreIDs r"
  shows "keysAreIDs (fst (snd (fst (loadTasks l r w))))"
proof (cases rule: loadTasks_cases[of l w r])
  case (fails e)
  with assms show ?thesis by simp
next
  case (reads tks r1 logs1 w1 r2 logs2)
  from removeLoop_keysAreIDs[OF reads(3) loadLoop_keysAreIDs[OF reads(2) assms]] reads(4)
  show ?thesis by (simp add: keysAreIDs_iff)
qed

lemma loadTasks_world: "\<exists>k. snd (loadTasks l r w) = clockReads l k w"
proof (cases rule: loadTasks_cases[of l w r])
  case (fails e)
  then show ?thesis by (metis clockReads_0 snd_conv)
next
  case (reads tks r1 logs1 w1 r2 logs2)
  from loadLoop_world[OF reads(2)] obtain k where "w1 = clockReads l k w" by blast
  with reads(4) have "snd (loadTasks l r w) = clockReads l (Suc k) w"
    by (simp add: clockReads_def)
  then show ?thesis by blast
qed

lemma loadTasks_absent:
  assumes "rangeOK l" and "absentFrom l i w" and "fmlookup (tasks r) i = None"
  shows "fmlookup (tasks (fst (snd (fst (loadTasks l r w))))) i = None"
proof (cases rule: loadTasks_cases[of l w r])
  case (fails e)
  with assms(3) show ?thesis by simp
next
  case (reads tks r1 logs1 w1 r2 logs2)
  from assms(2) reads(1) have notin: "i \<notin> ID ` set tks" by (simp add: absentFrom_def)
  have "set (map_range l w1 (fmdom (tasks r1))) = fset (fmdom (tasks r1))"
    using assms(1) by (simp add: rangeOK_def)
  then have "i \<notin> set (map_range l w1 (fmdom (tasks r1))) \<Longrightarrow> fmlookup (tasks r1) i = None"
    by (simp add: fmdom_notD)
  with removeLoop_lookup[OF reads(3), of i] notin have "fmlookup (tasks r2) i = None" by auto
  with reads(4) show ?thesis by simp
qed

lemma loadTasks_removed:
  assumes "rangeOK l" and "GetAllTasks l w = Inr tks" and "i \<notin> ID ` set tks"
  shows "fmlookup (tasks (fst (snd (fst (loadTasks l r w))))) i = None"
proof (cases rule: loadTasks_cases[of l w r])
  case (fails e)
  with assms(2) show ?thesis by simp
next
  case (reads tks' r1 logs1 w1 r2 logs2)
  with assms(2) have tks: "tks' = tks" by simp
  have "set (map_range l w1 (fmdom (tasks r1))) = fset (fmdom (tasks r1))"
    using assms(1) by (simp add: rangeOK_def)
  then have "i \<notin> set (map_range l w1 (fmdom (tasks r1))) \<Longrightarrow> fmlookup (tasks r1) i = None"
    by (simp add: fmdom_notD)
  with removeLoop_lookup[OF reads(3), of i] assms(3) tks have "fmlookup (tasks r2) i = None" by auto
  with reads(4) show ?thesis by simp
qed

lemma checkForChanges_unfold:
  "checkForChanges l r w =
     (if fst (time_Now l w) - lastCheck r < 10 * Second then ((None, r, []), snd (time_Now l w))
      else
       ((fst (fst (loadTasks l r (snd (time_Now l w)))),
         fst (snd (fst (loadTasks l r (snd (time_Now l w))))),
         logger_Println ''Checking for task updates...''
           # snd (snd (fst (loadTasks l r (snd (time_Now l w)))))),
        snd (loadTasks l r (snd (time_Now l w)))))"
  by (simp add: checkForChanges_def case_prod_beta)

lemma processTasks_keysAreIDs:
  assumes "rangeOK l" and "keysAreIDs r"
  shows "keysAreIDs (fst (fst (processTasks l r w)))"
  unfolding keysAreIDs_iff
proof (intro allI impI)
  fix i st assume "fmlookup (tasks (fst (fst (processTasks l r w)))) i = Some st"
  with processTasks_lookup[OF assms(1), of r w i]
  obtain st0 where "fmlookup (tasks r) i = Some st0"
    "rescheduled l (fst (time_Now l w)) st0 = Some st"
    by (cases "fmlookup (tasks r) i") auto
  with assms(2) show "ID (task st) = i"
    by (auto simp: keysAreIDs_iff rescheduled_def split: if_splits sum.splits)
qed

lemma processTasks_dispatched:
  assumes "rangeOK l"
  shows "fst (snd (fst (processTasks l r w))) =
           List.map_filter (dueTask (fst (time_Now l w)) r)
             (map_range l (snd (time_Now l w)) (fmdom (tasks r)))"
proof -
  let ?ks = "map_range l (snd (time_Now l w)) (fmdom (tasks r))"
  obtain r' disp logs where pl: "processLoop l (fst (time_Now l w)) ?ks r = (r', disp, logs)"
    by (metis prod.exhaust)
  have "distinct ?ks" using assms by (simp add: rangeOK_def)
  from processLoop_dispatched[OF pl this] pl show ?thesis by (simp add: processTasks_unfold)
qed

lemma dueTask_ID:
  "keysAreIDs r \<Longrightarrow> dueTask now r j = Some tk \<Longrightarrow> ID tk = j \<and> fmlookup (tasks r) j \<noteq> None"
  by (auto simp: dueTask_def keysAreIDs_iff split: option.splits if_splits)

lemma set_map_filter: "x \<in> set (List.map_filter f xs) \<Longrightarrow> \<exists>j\<in>set xs. f j = Some x"
  by (auto simp: List.map_filter_def)

lemma processTasks_not_dispatched:
  assumes "rangeOK l" and "keysAreIDs r" and "fmlookup (tasks r) i = None"
  shows "i \<notin> ID ` set (fst (snd (fst (processTasks l r w))))"
proof
  assume "i \<in> ID ` set (fst (snd (fst (processTasks l r w))))"
  then obtain tk where tk: "tk \<in> set (fst (snd (fst (processTasks l r w))))" "ID tk = i" by auto
  from tk(1) processTasks_dispatched[OF assms(1), of r w]
  obtain j where "dueTask (fst (time_Now l w)) r j = Some tk"
    using set_map_filter by metis
  from dueTask_ID[OF assms(2) this] tk(2) assms(3) show False by simp
qed

lemma run_tick:
  "run l (recv_ticker # cs) r w =
     (let c = checkForChanges l r w; r1 = fst (snd (fst c));
          p = processTasks l r1 (snd c); r2 = fst (fst p);
          rest = run l cs r2 (snd p)
      in ((fst (fst rest), fst (snd (fst p)) @ fst (snd (fst rest)),
           snd (snd (fst c)) @
           (case fst (fst c) of
              None \<Rightarrow> []
            | Some e \<Rightarrow> [logger_Printf ''Error checking for task updates: %v'' [V e]])
           @ snd (snd (fst p)) @ snd (snd (fst rest))), snd rest))"
  by (simp add: case_prod_beta Let_def)

lemma checkForChanges_inv:
  assumes "rangeOK l" and "keysAreIDs r" and "fmlookup (tasks r) i = None"
    and "\<forall>k. absentFrom l i (clockReads l k w)"
  shows "keysAreIDs (fst (snd (fst (checkForChanges l r w)))) \<and>
         fmlookup (tasks (fst (snd (fst (checkForChanges l r w))))) i = None \<and>
         (\<exists>k. snd (checkForChanges l r w) = clockReads l k w)"
proof (cases "fst (time_Now l w) - lastCheck r < 10 * Second")
  case True
  then have "checkForChanges l r w = ((None, r, []), clockReads l (Suc 0) w)"
    by (simp add: checkForChanges_unfold clockReads_1)
  with assms show ?thesis by (metis fst_conv snd_conv)
next
  case False
  let ?w1 = "snd (time_Now l w)"
  have abs: "absentFrom l i ?w1" using assms(4) clockReads_1 by metis
  from loadTasks_world[of l r ?w1] obtain k where "snd (loadTasks l r ?w1) = clockReads l k ?w1"
    by blast
  then have "snd (loadTasks l r ?w1) = clockReads l (k + 1) w"
    by (metis clockReads_1 clockReads_add One_nat_def)
  with False loadTasks_keysAreIDs[OF assms(2), of l ?w1]
       loadTasks_absent[OF assms(1) abs assms(3)]
  show ?thesis by (auto simp: checkForChanges_unfold)
qed

lemma run_not_dispatched:
  assumes "rangeOK l"
  shows "keysAreIDs r \<Longrightarrow> fmlookup (tasks r) i = None \<Longrightarrow>
         \<forall>k. absentFrom l i (clockReads l k w) \<Longrightarrow>
           i \<notin> ID ` set (fst (snd (fst (run l cs r w))))"
proof (induction cs arbitrary: r w)
  case Nil
  then show ?case by simp
next
  case (Cons c cs)
  show ?case
  proof (cases c)
    case recv_stopCh
    with Cons show ?thesis by simp
  next
    case recv_ticker
    let ?c = "checkForChanges l r w"
    let ?r1 = "fst (snd (fst ?c))"
    let ?p = "processTasks l ?r1 (snd ?c)"
    let ?r2 = "fst (fst ?p)"
    from checkForChanges_inv[OF assms Cons.prems] obtain k where
      k1: "keysAreIDs ?r1" and n1: "fmlookup (tasks ?r1) i = None"
      and w1: "snd ?c = clockReads l k w" by blast
    have k2: "keysAreIDs ?r2" by (rule processTasks_keysAreIDs[OF assms k1])
    have n2: "fmlookup (tasks ?r2) i = None"
      using processTasks_lookup[OF assms, of ?r1 "snd ?c" i] n1 by simp
    have w2: "snd ?p = clockReads l (Suc k) w"
      using w1 by (simp add: processTasks_unfold clockReads_def)
    have abs: "\<forall>m. absentFrom l i (clockReads l m (snd ?p))"
      using Cons.prems(3) w2 by (simp add: clockReads_add)
    have d1: "i \<notin> ID ` set (fst (snd (fst ?p)))"
      by (rule processTasks_not_dispatched[OF assms k1 n1])
    have d2: "i \<notin> ID ` set (fst (snd (fst (run l cs ?r2 (snd ?p)))))"
      by (rule Cons.IH[OF k2 n2 abs])
    from d1 d2 show ?thesis unfolding recv_ticker run_tick Let_def by (simp add: image_Un)
  qed
qed

text \<open>
  Claim C5. Let \<open>loadTasks\<close> read the registry, and let no record read have the ID
  \<open>i\<close>. When the call returns, the schedule has no entry for \<open>i\<close>. As long as the
  registry still lacks the ID at every later reading, no tick of the scheduler that
  follows hands over a task with that ID, however the loop of \<open>run\<close> goes on.
\<close>

theorem loadTasks_removes_absent:
  assumes "rangeOK l" and "keysAreIDs r" and "GetAllTasks l w = Inr tks"
    and "i \<notin> ID ` set tks" and "\<forall>k. absentFrom l i (clockReads l k w)"
  shows "\<exists>r' logs w'. loadTasks l r w = ((None, r', logs), w') \<and>
           fmlookup (tasks r') i = None \<and>
           (\<forall>cs. i \<notin> ID ` set (fst (snd (fst (run l cs r' w')))))"
proof -
  from loadTasks_unfold[OF assms(3), of r] obtain r' logs w' where
    lt: "loadTasks l r w = ((None, r', logs), w')" by blast
  have gone: "fmlookup (tasks r') i = None"
    using loadTasks_removed[OF assms(1,3,4), of r] lt by simp
  have keys: "keysAreIDs r'" using loadTasks_keysAreIDs[OF assms(2), of l w] lt by simp
  from loadTasks_world[of l r w] lt obtain k where "w' = clockReads l k w" by auto
  with assms(5) have "\<forall>m. absentFrom l i (clockReads l m w')" by (simp add: clockReads_add)
  from run_not_dispatched[OF assms(1) keys gone this] lt gone show ?thesis by blast
qed

lemma registry_clockReads_sim:
  "registry (clockReads (sim reply remote) k w) = registry w"
  by (induction k) (simp_all add: clockReads_def time_Now_sim)

lemma keysAreIDs_exScheduled: "keysAreIDs exScheduled"
  by (auto simp: keysAreIDs_iff exScheduled_def exTask_def split: if_splits)

theorem loadTasks_removes_absent_witness:
  "rangeOK (sim exDown None) \<and> keysAreIDs exScheduled \<and>
   GetAllTasks (sim exDown None) (exWorld\<lparr>registry := []\<rparr>) = Inr [] \<and>
   1 \<notin> ID ` set [] \<and>
   (\<forall>k. absentFrom (sim exDown None) 1 (clockReads (sim exDown None) k (exWorld\<lparr>registry := []\<rparr>))) \<and>
   fmlookup (tasks exScheduled) 1 \<noteq> None \<and>
   (\<exists>r' logs w'. loadTasks (sim exDown None) exScheduled (exWorld\<lparr>registry := []\<rparr>)
        = ((None, r', logs), w') \<and>
      fmlookup (tasks r') 1 = None \<and>
      1 \<notin> ID ` set (fst (snd (fst (run (sim exDown None) [recv_ticker, recv_ticker] r' w')))))"
proof -
  let ?L = "sim exDown None"
  let ?w = "exWorld\<lparr>registry := []\<rparr>"
  have h1: "rangeOK ?L" by (rule rangeOK_sim)
  have h2: "keysAreIDs exScheduled" by (rule keysAreIDs_exScheduled)
  have h3: "GetAllTasks ?L ?w = Inr []" by (simp add: GetAllTasks_sim)
  have h4: "1 \<notin> ID ` set []" by simp
  have h5: "\<forall>k. absentFrom ?L 1 (clockReads ?L k ?w)"
    by (simp add: absentFrom_def GetAllTasks_sim registry_clockReads_sim)
  have h6: "fmlookup (tasks exScheduled) 1 \<noteq> None" by (simp add: exScheduled_def)
  from loadTasks_removes_absent[OF h1 h2 h3 h4 h5] h1 h2 h3 h4 h5 h6 show ?thesis by blast
qed

theorem loadTasks_existing_record_witness:
  "GetAllTasks (sim exDown None) exWorld = Inr [exTask] \<and>
   distinct (map ID [exTask]) \<and> exTask \<in> set [exTask] \<and>
   fmlookup (tasks exScheduled) (ID exTask) = Some \<lparr>task = exTask\<lparr>Every := ''1h''\<rparr>, nextRun = 500\<rparr> \<and>
   rangeOK (sim exDown None) \<and>
   (\<exists>r' logs w'. loadTasks (sim exDown None) exScheduled exWorld = ((None, r', logs), w') \<and>
      fmlookup (tasks r') 1 = Some \<lparr>task = exTask, nextRun = 500\<rparr> \<and>
      fmlookup (tasks (fst (fst (processTasks (sim exDown None) r' (exWorld\<lparr>clock := 600\<rparr>))))) 1
        = Some \<lparr>task = exTask, nextRun = 600 + 300000000000\<rparr> \<and>
      fmlookup (tasks (fst (fst (processTasks (sim exDown None) r' (exWorld\<lparr>clock := 500\<rparr>))))) 1
        = Some \<lparr>task = exTask, nextRun = 500\<rparr>)"
proof -
  let ?L = "sim exDown None"
  have h1: "GetAllTasks ?L exWorld = Inr [exTask]"
    by (simp add: GetAllTasks_sim exWorld_def)
  have h2: "distinct (map ID [exTask])" by simp
  have h3: "exTask \<in> set [exTask]" by simp
  have h4: "fmlookup (tasks exScheduled) (ID exTask)
              = Some \<lparr>task = exTask\<lparr>Every := ''1h''\<rparr>, nextRun = 500\<rparr>"
    by (simp add: exScheduled_def exTask_def)
  have h5: "rangeOK ?L" by (rule rangeOK_sim)
  from loadTasks_existing_record[OF h1 h2 h3 h4 h5] obtain r' logs w' where
    lt: "loadTasks ?L exScheduled exWorld = ((None, r', logs), w')"
    and e: "fmlookup (tasks r') (ID exTask) = Some \<lparr>task = exTask, nextRun = 500\<rparr>"
    and t: "\<And>v. fmlookup (tasks (fst (fst (processTasks ?L r' v)))) (ID exTask) =
                  (if 500 < fst (time_Now ?L v) then
                     (case time_ParseDuration ?L (Every exTask) of
                        Inr d \<Rightarrow> Some \<lparr>task = exTask, nextRun = fst (time_Now ?L v) + d\<rparr>
                      | Inl err \<Rightarrow> None)
                   else Some \<lparr>task = exTask, nextRun = 500\<rparr>)"
    by auto
  have id: "ID exTask = 1" and ev: "Every exTask = ''5m''" by (simp_all add: exTask_def)
  have t1: "fmlookup (tasks (fst (fst (processTasks ?L r' (exWorld\<lparr>clock := 600\<rparr>))))) 1
        = Some \<lparr>task = exTask, nextRun = 600 + 300000000000\<rparr>"
    using t[of "exWorld\<lparr>clock := 600\<rparr>"]
    by (simp add: id ev time_Now_sim time_ParseDuration_sim simParseDuration_5m)
  have t2: "fmlookup (tasks (fst (fst (processTasks ?L r' (exWorld\<lparr>clock := 500\<rparr>))))) 1
        = Some \<lparr>task = exTask, nextRun = 500\<rparr>"
    using t[of "exWorld\<lparr>clock := 500\<rparr>"]
    by (simp add: id time_Now_sim)
  from h1 h2 h3 h4 h5 lt e t1 t2 id show ?thesis by auto
qed

section \<open>The tick: \<open>processTasks\<close>\<close>

lemma count_map_filter_unique:
  "distinct ks \<Longrightarrow> (\<And>j. j \<in> set ks \<Longrightarrow> f j = Some x \<Longrightarrow> j = i) \<Longrightarrow>
     count_list (List.map_filter f ks) x = (if i \<in> set ks \<and> f i = Some x then 1 else 0)"
proof (induction ks)
  case Nil
  then show ?case by simp
next
  case (Cons j ks)
  have IH: "count_list (List.map_filter f ks) x = (if i \<in> set ks \<and> f i = Some x then 1 else 0)"
    using Cons by auto
  show ?case
  proof (cases "f j = Some x")
    case True
    then have "j = i" using Cons.prems(2) by simp
    with True IH Cons.prems(1) show ?thesis by simp
  next
    case False
    with IH show ?thesis by (cases "f j") auto
  qed
qed

lemma map_filter_none: "(\<And>j. j \<in> set ks \<Longrightarrow> f j = None) \<Longrightarrow> List.map_filter f ks = []"
  by (induction ks) simp_all

lemma processTasks_warning:
  assumes "rangeOK l" and "fmlookup (tasks r) i = Some st" and "nextRun st < fst (time_Now l w)"
    and "time_ParseDuration l (Every (task st)) = Inl err"
  shows "logger_Printf ''Error parsing duration for task %d: %v'' [D i, V err]
           \<in> set (snd (snd (fst (processTasks l r w))))"
proof -
  let ?ks = "map_range l (snd (time_Now l w)) (fmdom (tasks r))"
  obtain r' disp logs where pl: "processLoop l (fst (time_Now l w)) ?ks r = (r', disp, logs)"
    by (metis prod.exhaust)
  have dist: "distinct ?ks" and cover: "set ?ks = fset (fmdom (tasks r))"
    using assms(1) by (simp_all add: rangeOK_def)
  have "i \<in> set ?ks" using cover assms(2) by (simp add: fmdomI)
  from processLoop_warning[OF pl dist this assms(2,3,4)] pl show ?thesis
    by (simp add: processTasks_unfold)
qed

text \<open>
  Claim C2, as the code has it. At a tick, with \<open>now\<close> the time read by
  \<open>processTasks\<close>, every entry of the schedule whose \<open>nextRun\<close> is strictly before
  \<open>now\<close> is handed over for execution exactly once, and its \<open>nextRun\<close> becomes
  \<open>now\<close> plus its own interval; if that interval does not parse, the entry is dropped
  from the schedule and the failure is logged (the task has been handed over all the
  same). An entry whose \<open>nextRun\<close> is \<open>now\<close> or later is not handed over and is
  left as it is.
\<close>

theorem processTasks_due_entries:
  assumes "rangeOK l" and "keysAreIDs r" and "fmlookup (tasks r) i = Some st"
  shows "\<exists>r' dispatched logs.
           processTasks l r w = ((r', dispatched, logs), snd (time_Now l w)) \<and>
           (if nextRun st < fst (time_Now l w) then
              count_list dispatched (task st) = 1 \<and>
              (case time_ParseDuration l (Every (task st)) of
                 Inr d \<Rightarrow> fmlookup (tasks r') i = Some (st\<lparr>nextRun := fst (time_Now l w) + d\<rparr>)
               | Inl err \<Rightarrow>
                   fmlookup (tasks r') i = None \<and>
                   logger_Printf ''Error parsing duration for task %d: %v'' [D i, V err] \<in> set logs)
            else count_list dispatched (task st) = 0 \<and> fmlookup (tasks r') i = Some st)"
proof -
  let ?now = "fst (time_Now l w)"
  let ?ks = "map_range l (snd (time_Now l w)) (fmdom (tasks r))"
  obtain r' dispatched logs where
    pt: "processTasks l r w = ((r', dispatched, logs), snd (time_Now l w))"
    by (metis processTasks_unfold prod.exhaust)
  have dist: "distinct ?ks" and cover: "set ?ks = fset (fmdom (tasks r))"
    using assms(1) by (simp_all add: rangeOK_def)
  have mem: "i \<in> set ?ks" using cover assms(3) by (simp add: fmdomI)
  have disp: "dispatched = List.map_filter (dueTask ?now r) ?ks"
    using processTasks_dispatched[OF assms(1), of r w] pt by simp
  have uniq: "\<And>j. j \<in> set ?ks \<Longrightarrow> dueTask ?now r j = Some (task st) \<Longrightarrow> j = i"
    using dueTask_ID[OF assms(2)] assms(2,3) unfolding keysAreIDs_iff by metis
  have "count_list (List.map_filter (dueTask ?now r) ?ks) (task st) =
          (if i \<in> set ?ks \<and> dueTask ?now r i = Some (task st) then 1 else 0)"
    by (rule count_map_filter_unique[OF dist]) (rule uniq)
  then have cnt: "count_list dispatched (task st) = (if nextRun st < ?now then 1 else 0)"
    using mem assms(3) disp by (simp add: dueTask_def)
  have look: "fmlookup (tasks r') i = rescheduled l ?now st"
    using processTasks_lookup[OF assms(1), of r w i] pt assms(3) by simp
  have warn: "\<And>err. nextRun st < ?now \<Longrightarrow> time_ParseDuration l (Every (task st)) = Inl err \<Longrightarrow>
      logger_Printf ''Error parsing duration for task %d: %v'' [D i, V err] \<in> set logs"
  proof -
    fix err assume "nextRun st < ?now" "time_ParseDuration l (Every (task st)) = Inl err"
    from processTasks_warning[OF assms(1,3) this] pt
    show "logger_Printf ''Error parsing duration for task %d: %v'' [D i, V err] \<in> set logs"
      by simp
  qed
  have "(if nextRun st < ?now then
              count_list dispatched (task st) = 1 \<and>
              (case time_ParseDuration l (Every (task st)) of
                 Inr d \<Rightarrow> fmlookup (tasks r') i = Some (st\<lparr>nextRun := ?now + d\<rparr>)
               | Inl err \<Rightarrow>
                   fmlookup (tasks r') i = None \<and>
                   logger_Printf ''Error parsing duration for task %d: %v'' [D i, V err] \<in> set logs)
            else count_list dispatched (task st) = 0 \<and> fmlookup (tasks r') i = Some st)"
    using cnt look warn by (auto simp: rescheduled_def split: sum.splits)
  with pt show ?thesis by blast
qed

lemma keysAreIDs_exDue: "keysAreIDs exDue"
  by (auto simp: keysAreIDs_iff exDue_def exTask_def split: if_splits)

theorem processTasks_due_entries_witness:
  "rangeOK (sim exDown None) \<and> keysAreIDs exDue \<and>
   fmlookup (tasks exDue) 1 = Some \<lparr>task = exTask, nextRun = 100\<rparr> \<and>
   (\<exists>r' dispatched logs.
      processTasks (sim exDown None) exDue (exWorld\<lparr>clock := 101\<rparr>)
        = ((r', dispatched, logs), exWorld\<lparr>clock := 102\<rparr>) \<and>
      count_list dispatched exTask = 1 \<and>
      fmlookup (tasks r') 1 = Some \<lparr>task = exTask, nextRun = 101 + 300000000000\<rparr>)"
proof -
  let ?L = "sim exDown None"
  have h1: "rangeOK ?L" by (rule rangeOK_sim)
  have h2: "keysAreIDs exDue" by (rule keysAreIDs_exDue)
  have h3: "fmlookup (tasks exDue) 1 = Some \<lparr>task = exTask, nextRun = 100\<rparr>"
    by (simp add: exDue_def)
  have ev: "Every exTask = ''5m''" by (simp add: exTask_def)
  from processTasks_due_entries[OF h1 h2 h3, of "exWorld\<lparr>clock := 101\<rparr>"]
  have "\<exists>r' dispatched logs.
      processTasks ?L exDue (exWorld\<lparr>clock := 101\<rparr>)
        = ((r', dispatched, logs), exWorld\<lparr>clock := 102\<rparr>) \<and>
      count_list dispatched exTask = 1 \<and>
      fmlookup (tasks r') 1 = Some \<lparr>task = exTask, nextRun = 101 + 300000000000\<rparr>"
    by (simp add: time_Now_sim time_ParseDuration_sim ev simParseDuration_5m)
  with h1 h2 h3 show ?thesis by blast
qed

text \<open>
  The claim C2 as the specification words it (``at or before the current time'') fails:
  an entry whose \<open>nextRun\<close> equals the time of the tick is not handed over.
\<close>

theorem processTasks_at_now_counterexample:
  "fmlookup (tasks exDue) 1 = Some \<lparr>task = exTask, nextRun = 100\<rparr> \<and>
   fst (time_Now (sim exDown None) exWorld) = 100 \<and>
   processTasks (sim exDown None) exDue exWorld = ((exDue, [], []), exWorld\<lparr>clock := 101\<rparr>)"
proof -
  let ?L = "sim exDown None"
  let ?ks = "map_range ?L (snd (time_Now ?L exWorld)) (fmdom (tasks exDue))"
  have now: "fst (time_Now ?L exWorld) = 100" by (simp add: time_Now_sim exWorld_def)
  have ks: "?ks = [1]"
    by (simp add: sim_def exDue_def sorted_list_of_fset.rep_eq)
  have "processLoop ?L 100 [1] exDue = (exDue, [], [])"
    by (simp add: exDue_def)
  with now ks have "processTasks ?L exDue exWorld = ((exDue, [], []), exWorld\<lparr>clock := 101\<rparr>)"
    by (simp add: processTasks_unfold time_Now_sim exWorld_def)
  moreover have "fmlookup (tasks exDue) 1 = Some \<lparr>task = exTask, nextRun = 100\<rparr>"
    by (simp add: exDue_def)
  ultimately show ?thesis using now by simp
qed

section \<open>Stopping the scheduler\<close>

lemma loadTasks_frame:
  "stopCh_closed (fst (snd (fst (loadTasks l r w)))) = stopCh_closed r"
proof (cases rule: loadTasks_cases[of l w r])
  case (fails e)
  then show ?thesis by simp
next
  case (reads tks r1 logs1 w1 r2 logs2)
  from loadLoop_frame[OF reads(2)] removeLoop_frame[OF reads(3)] reads(4)
  show ?thesis by simp
qed

lemma checkForChanges_frame:
  "stopCh_closed (fst (snd (fst (checkForChanges l r w)))) = stopCh_closed r"
  by (simp add: checkForChanges_unfold loadTasks_frame)

lemma processTasks_frame:
  "stopCh_closed (fst (fst (processTasks l r w))) = stopCh_closed r"
proof -
  obtain r' disp logs where
    "processLoop l (fst (time_Now l w)) (map_range l (snd (time_Now l w)) (fmdom (tasks r))) r
       = (r', disp, logs)"
    by (metis prod.exhaust)
  from processLoop_frame[OF this] this show ?thesis by (simp add: processTasks_unfold)
qed

lemma run_frame: "stopCh_closed (fst (fst (run l cs r w))) = stopCh_closed r"
proof (induction cs arbitrary: r w)
  case Nil
  show ?case by simp
next
  case (Cons c cs)
  show ?case
  proof (cases c)
    case recv_stopCh
    with Cons show ?thesis by simp
  next
    case recv_ticker
    show ?thesis unfolding recv_ticker run_tick Let_def
      by (simp add: Cons.IH processTasks_frame checkForChanges_frame)
  qed
qed

lemma run_closed:
  "stopCh_closed r \<Longrightarrow> run l cs r w = run l (takeWhile (\<lambda>c. c \<noteq> recv_stopCh) cs) r w"
proof (induction cs arbitrary: r w)
  case Nil
  show ?case by simp
next
  case (Cons c cs)
  show ?case
  proof (cases c)
    case recv_stopCh
    with Cons.prems show ?thesis by simp
  next
    case recv_ticker
    let ?c = "checkForChanges l r w"
    let ?p = "processTasks l (fst (snd (fst ?c))) (snd ?c)"
    have "stopCh_closed (fst (fst ?p))"
      using Cons.prems by (simp add: processTasks_frame checkForChanges_frame)
    from Cons.IH[OF this, of "snd ?p"]
    have "run l (recv_ticker # cs) r w
            = run l (recv_ticker # takeWhile (\<lambda>c. c \<noteq> recv_stopCh) cs) r w"
      unfolding run_tick Let_def by simp
    with recv_ticker show ?thesis by simp
  qed
qed

lemma run_open:
  "\<not> stopCh_closed r \<Longrightarrow> run l cs r w = run l (filter (\<lambda>c. c \<noteq> recv_stopCh) cs) r w"
proof (induction cs arbitrary: r w)
  case Nil
  show ?case by simp
next
  case (Cons c cs)
  show ?case
  proof (cases c)
    case recv_stopCh
    with Cons show ?thesis by simp
  next
    case recv_ticker
    let ?c = "checkForChanges l r w"
    let ?p = "processTasks l (fst (snd (fst ?c))) (snd ?c)"
    have "\<not> stopCh_closed (fst (fst ?p))"
      using Cons.prems by (simp add: processTasks_frame checkForChanges_frame)
    from Cons.IH[OF this, of "snd ?p"]
    have "run l (recv_ticker # cs) r w
            = run l (recv_ticker # filter (\<lambda>c. c \<noteq> recv_stopCh) cs) r w"
      unfolding run_tick Let_def by simp
    with recv_ticker show ?thesis by simp
  qed
qed

text \<open>
  Claim C10, as the code has it. \<open>Stop\<close> on a task runner whose channel is open closes
  the channel and changes nothing else. Any later \<open>Stop\<close> on that task runner, at once
  or after the loop of \<open>run\<close> has gone through any number of passes, panics with Go's
  ``close of closed channel''. With the channel closed, the loop handles the ticks that
  its \<open>select\<close> takes before it first takes the case of the channel, and nothing after
  that: it returns there. With the channel open the case of the channel never fires, and
  the loop handles every tick.
\<close>

theorem Stop_not_idempotent:
  assumes "\<not> stopCh_closed r"
  shows "Stop r = Inr (r\<lparr>stopCh_closed := True\<rparr>, [logger_Println ''Task scheduler stopped'']) \<and>
         Stop (r\<lparr>stopCh_closed := True\<rparr>) = Inl ''close of closed channel'' \<and>
         Stop (fst (fst (run l cs (r\<lparr>stopCh_closed := True\<rparr>) w))) = Inl ''close of closed channel'' \<and>
         run l cs (r\<lparr>stopCh_closed := True\<rparr>) w
           = run l (takeWhile (\<lambda>c. c \<noteq> recv_stopCh) cs) (r\<lparr>stopCh_closed := True\<rparr>) w \<and>
         run l cs r w = run l (filter (\<lambda>c. c \<noteq> recv_stopCh) cs) r w"
proof (intro conjI)
  show "Stop r = Inr (r\<lparr>stopCh_closed := True\<rparr>, [logger_Println ''Task scheduler stopped''])"
    using assms by (simp add: Stop_def)
  show "Stop (r\<lparr>stopCh_closed := True\<rparr>) = Inl ''close of closed channel''"
    by (simp add: Stop_def)
  show "Stop (fst (fst (run l cs (r\<lparr>stopCh_closed := True\<rparr>) w))) = Inl ''close of closed channel''"
    by (simp add: Stop_def run_frame)
  show "run l cs (r\<lparr>stopCh_closed := True\<rparr>) w
           = run l (takeWhile (\<lambda>c. c \<noteq> recv_stopCh) cs) (r\<lparr>stopCh_closed := True\<rparr>) w"
    by (rule run_closed) simp
  show "run l cs r w = run l (filter (\<lambda>c. c \<noteq> recv_stopCh) cs) r w"
    by (rule run_open[OF assms])
qed

theorem Stop_not_idempotent_witness:
  "\<not> stopCh_closed exDue \<and>
   Stop exDue = Inr (exDue\<lparr>stopCh_closed := True\<rparr>, [logger_Println ''Task scheduler stopped'']) \<and>
   Stop (exDue\<lparr>stopCh_closed := True\<rparr>) = Inl ''close of closed channel'' \<and>
   Stop (fst (fst (run (sim exDown None) [recv_ticker, recv_stopCh, recv_ticker]
                     (exDue\<lparr>stopCh_closed := True\<rparr>) (exWorld\<lparr>clock := 101\<rparr>))))
     = Inl ''close of closed channel'' \<and>
   run (sim exDown None) [recv_ticker, recv_stopCh, recv_ticker]
       (exDue\<lparr>stopCh_closed := True\<rparr>) (exWorld\<lparr>clock := 101\<rparr>)
     = run (sim exDown None) [recv_ticker] (exDue\<lparr>stopCh_closed := True\<rparr>) (exWorld\<lparr>clock := 101\<rparr>) \<and>
   run (sim exDown None) [recv_stopCh, recv_ticker]
       (exDue\<lparr>stopCh_closed := True\<rparr>) (exWorld\<lparr>clock := 101\<rparr>)
     = ((exDue\<lparr>stopCh_closed := True\<rparr>, [], []), exWorld\<lparr>clock := 101\<rparr>)"
proof -
  have h: "\<not> stopCh_closed exDue" by (simp add: exDue_def)
  note A = Stop_not_idempotent[OF h, of "sim exDown None" "[recv_ticker, recv_stopCh, recv_ticker]"
      "exWorld\<lparr>clock := 101\<rparr>"]
  note B = Stop_not_idempotent[OF h, of "sim exDown None" "[recv_stopCh, recv_ticker]"
      "exWorld\<lparr>clock := 101\<rparr>"]
  have a: "run (sim exDown None) [recv_ticker, recv_stopCh, recv_ticker]
       (exDue\<lparr>stopCh_closed := True\<rparr>) (exWorld\<lparr>clock := 101\<rparr>)
     = run (sim exDown None) [recv_ticker] (exDue\<lparr>stopCh_closed := True\<rparr>) (exWorld\<lparr>clock := 101\<rparr>)"
    using A by (simp del: run.simps)
  have b: "run (sim exDown None) [recv_stopCh, recv_ticker]
       (exDue\<lparr>stopCh_closed := True\<rparr>) (exWorld\<lparr>clock := 101\<rparr>)
     = ((exDue\<lparr>stopCh_closed := True\<rparr>, [], []), exWorld\<lparr>clock := 101\<rparr>)"
    using B by (simp del: run.simps add: run.simps(1))
  have c: "Stop exDue
     = Inr (exDue\<lparr>stopCh_closed := True\<rparr>, [logger_Println ''Task scheduler stopped''])"
    and d: "Stop (exDue\<lparr>stopCh_closed := True\<rparr>) = Inl ''close of closed channel''"
    and e: "Stop (fst (fst (run (sim exDown None) [recv_ticker, recv_stopCh, recv_ticker]
                     (exDue\<lparr>stopCh_closed := True\<rparr>) (exWorld\<lparr>clock := 101\<rparr>))))
     = Inl ''close of closed channel''"
    using A by blast+
  from h c d e a b show ?thesis by blast
qed

text \<open>
  The claim C10 as it is worded (the first \<open>Stop\<close> prevents all future ticks and
  dispatches) fails: a tick that the \<open>select\<close> of the loop takes after \<open>Stop\<close> has
  closed the channel, because it was ready as well, is handled, and it hands over the task
  that is due.
\<close>

theorem Stop_then_tick_counterexample:
  "\<not> stopCh_closed exDue \<and>
   Stop exDue = Inr (exDue\<lparr>stopCh_closed := True\<rparr>, [logger_Println ''Task scheduler stopped'']) \<and>
   fst (snd (fst (run (sim exDown None) [recv_ticker, recv_stopCh]
                    (exDue\<lparr>stopCh_closed := True\<rparr>) (exWorld\<lparr>clock := 101\<rparr>)))) = [exTask]"
proof -
  have 1: "\<not> stopCh_closed exDue" by (simp add: exDue_def)
  have 2: "Stop exDue
     = Inr (exDue\<lparr>stopCh_closed := True\<rparr>, [logger_Println ''Task scheduler stopped''])"
    by (simp add: Stop_def exDue_def)
  have 3: "fst (snd (fst (run (sim exDown None) [recv_ticker, recv_stopCh]
                    (exDue\<lparr>stopCh_closed := True\<rparr>) (exWorld\<lparr>clock := 101\<rparr>)))) = [exTask]"
    by code_simp
  from 1 2 3 show ?thesis by simp
qed

section \<open>The commit message\<close>

lemma GenerateCommitMessage_Inr:
  assumes "GenerateCommitMessage l c diff w = (Inr m, w')"
  shows "\<exists>req resp content rest. http_Do l req w = (Inr resp, w') \<and> StatusCode resp = 200 \<and>
           chatResp resp = Inr (content # rest) \<and> m = Trim (TrimSpace content) quoteCutset"
proof -
  from assms obtain req resp where do: "http_Do l req w = (Inr resp, w')"
    and rr: "readResponse resp = Inr m"
    by (auto simp: GenerateCommitMessage_def Let_def
             split: if_splits sum.splits prod.splits)
  from rr obtain content rest where "StatusCode resp = 200" "chatResp resp = Inr (content # rest)"
    "m = Trim (TrimSpace content) quoteCutset"
    by (auto simp: readResponse_def split: if_splits sum.splits list.splits)
  with do show ?thesis by blast
qed

lemma GenerateCommitMessage_no_credentials:
  "\<not> HasCredentials c \<Longrightarrow>
     GenerateCommitMessage l c diff w = (Inl (fmt_Errorf ''LLM API credentials not configured''), w)"
  by (simp add: GenerateCommitMessage_def)

lemma resolveMessage_message:
  "fst (fst (resolveMessage l c tk diff w)) =
     spec_messageResolver (HasCredentials c) (StaticMsg tk) (fst (GenerateCommitMessage l c diff w))"
  by (cases "GenerateCommitMessage l c diff w"; cases "fst (GenerateCommitMessage l c diff w)")
     (auto simp: resolveMessage_def spec_messageResolver_def)

lemma resolveMessage_world:
  "snd (resolveMessage l c tk diff w) =
     (if HasCredentials c then snd (GenerateCommitMessage l c diff w) else w)"
  by (cases "GenerateCommitMessage l c diff w"; cases "fst (GenerateCommitMessage l c diff w)")
     (auto simp: resolveMessage_def)

lemma messageAndCommit_unfold:
  "messageAndCommit l c rm tk diff w =
     (case fst (fst (resolveMessage l c tk diff w)) of
        None \<Rightarrow> (snd (fst (resolveMessage l c tk diff w)), snd (resolveMessage l c tk diff w))
      | Some m \<Rightarrow>
          (snd (fst (resolveMessage l c tk diff w))
             @ fst (commitAndPush l rm tk m (snd (resolveMessage l c tk diff w))),
           snd (commitAndPush l rm tk m (snd (resolveMessage l c tk diff w)))))"
  by (simp add: messageAndCommit_def case_prod_beta split: option.splits prod.splits)

text \<open>
  Claim C1. The message chosen by \<open>executeTask\<close> is the one the decision table of the
  specification gives (\<open>spec_messageResolver\<close>, where \<open>None\<close> is the abort) for the
  three inputs: whether the client has credentials, the static message of the task, and
  the outcome of \<open>GenerateCommitMessage\<close>. With credentials the generation is run first,
  also when a static message is set: the outside state after the choice is the one the
  generation leaves. A generated message is the first choice of a 200 answer with leading
  and trailing white space removed and then leading and trailing quote characters
  removed. When no message is chosen the run ends there: commit and push are not run, and
  the outside state is the one left by the choice of the message.
\<close>

theorem message_resolution_matrix:
  "fst (fst (resolveMessage l c tk diff w)) =
     spec_messageResolver (HasCredentials c) (StaticMsg tk) (fst (GenerateCommitMessage l c diff w)) \<and>
   snd (resolveMessage l c tk diff w) =
     (if HasCredentials c then snd (GenerateCommitMessage l c diff w) else w) \<and>
   (\<forall>m. fst (GenerateCommitMessage l c diff w) = Inr m \<longrightarrow>
      (\<exists>req resp content rest.
         http_Do l req w = (Inr resp, snd (GenerateCommitMessage l c diff w)) \<and>
         StatusCode resp = 200 \<and> chatResp resp = Inr (content # rest) \<and>
         m = Trim (TrimSpace content) quoteCutset)) \<and>
   messageAndCommit l c rm tk diff w =
     (case spec_messageResolver (HasCredentials c) (StaticMsg tk)
             (fst (GenerateCommitMessage l c diff w)) of
        None \<Rightarrow> (snd (fst (resolveMessage l c tk diff w)), snd (resolveMessage l c tk diff w))
      | Some m \<Rightarrow>
          (snd (fst (resolveMessage l c tk diff w))
             @ fst (commitAndPush l rm tk m (snd (resolveMessage l c tk diff w))),
           snd (commitAndPush l rm tk m (snd (resolveMessage l c tk diff w)))))"
proof (intro conjI allI impI)
  show "fst (fst (resolveMessage l c tk diff w)) =
     spec_messageResolver (HasCredentials c) (StaticMsg tk) (fst (GenerateCommitMessage l c diff w))"
    by (rule resolveMessage_message)
  show "snd (resolveMessage l c tk diff w) =
     (if HasCredentials c then snd (GenerateCommitMessage l c diff w) else w)"
    by (rule resolveMessage_world)
  show "messageAndCommit l c rm tk diff w =
     (case spec_messageResolver (HasCredentials c) (StaticMsg tk)
             (fst (GenerateCommitMessage l c diff w)) of
        None \<Rightarrow> (snd (fst (resolveMessage l c tk diff w)), snd (resolveMessage l c tk diff w))
      | Some m \<Rightarrow>
          (snd (fst (resolveMessage l c tk diff w))
             @ fst (commitAndPush l rm tk m (snd (resolveMessage l c tk diff w))),
           snd (commitAndPush l rm tk m (snd (resolveMessage l c tk diff w)))))"
    using messageAndCommit_unfold[of l c rm tk diff w] by (simp add: resolveMessage_message)
next
  fix m assume "fst (GenerateCommitMessage l c diff w) = Inr m"
  then have "GenerateCommitMessage l c diff w = (Inr m, snd (GenerateCommitMessage l c diff w))"
    by (metis prod.collapse)
  from GenerateCommitMessage_Inr[OF this]
  show "\<exists>req resp content rest.
         http_Do l req w = (Inr resp, snd (GenerateCommitMessage l c diff w)) \<and>
         StatusCode resp = 200 \<and> chatResp resp = Inr (content # rest) \<and>
         m = Trim (TrimSpace content) quoteCutset" .
qed

lemma GenerateCommitMessage_sim:
  "APIKey c \<noteq> [] \<Longrightarrow>
   GenerateCommitMessage (sim reply remote) c diff w =
     ((case reply of Inl err \<Rightarrow> Inl (fmt_Errorf_w ''failed to send request'' err)
                   | Inr resp \<Rightarrow> readResponse resp),
      w\<lparr>requests := requests w @
          [\<lparr>Method = ''POST'', URL = TrimSuffix (BaseURL c) ''/'' @ ''/chat/completions'',
            Header = [(''Authorization'', ''Bearer '' @ APIKey c),
                      (''Content-Type'', ''application/json'')],
            Body = ''You generate concise git commit messages in conventional format.''
                     @ promptText @ diff\<rparr>]\<rparr>)"
  by (cases reply) (simp_all add: GenerateCommitMessage_def HasCredentials_def sim_def Header_Set_def)

lemma trim_example:
  "Trim (TrimSpace ('' '' @ [CHR 0x22] @ ''feat: add parser'' @ [CHR 0x22, CHR 0x0A])) quoteCutset
     = ''feat: add parser''"
  by code_simp

text \<open>
  The two trims are applied one after the other, white space first: white space inside the
  quotes is kept.
\<close>

lemma trim_inside_quotes:
  "Trim (TrimSpace ([CHR 0x22] @ '' fix typo '' @ [CHR 0x22])) quoteCutset = '' fix typo ''"
  by code_simp

lemma readResponse_exAnswer:
  "readResponse \<lparr>StatusCode = 200, errorResponse = e, chatResp = Inr [content]\<rparr>
     = Inr (Trim (TrimSpace content) quoteCutset)"
  by (simp add: readResponse_def)

theorem message_resolution_matrix_witness:
  "fst (GenerateCommitMessage
         (sim (exAnswer ('' '' @ [CHR 0x22] @ ''feat: add parser'' @ [CHR 0x22, CHR 0x0A])) None)
         exClient ''diff'' exWorld) = Inr ''feat: add parser'' \<and>
   (\<exists>req resp content rest.
      http_Do (sim (exAnswer ('' '' @ [CHR 0x22] @ ''feat: add parser'' @ [CHR 0x22, CHR 0x0A])) None)
        req exWorld
        = (Inr resp,
           snd (GenerateCommitMessage
                 (sim (exAnswer ('' '' @ [CHR 0x22] @ ''feat: add parser'' @ [CHR 0x22, CHR 0x0A])) None)
                 exClient ''diff'' exWorld)) \<and>
      StatusCode resp = 200 \<and> chatResp resp = Inr (content # rest) \<and>
      ''feat: add parser'' = Trim (TrimSpace content) quoteCutset) \<and>
   fst (fst (resolveMessage
         (sim (exAnswer ('' '' @ [CHR 0x22] @ ''feat: add parser'' @ [CHR 0x22, CHR 0x0A])) None)
         exClient exTask ''diff'' exWorld)) = Some ''feat: add parser'' \<and>
   length (requests (snd (resolveMessage
         (sim (exAnswer ('' '' @ [CHR 0x22] @ ''feat: add parser'' @ [CHR 0x22, CHR 0x0A])) None)
         exClient exTask ''diff'' exWorld))) = 1 \<and>
   fst (fst (resolveMessage (sim exDown None) exClient exTask ''diff'' exWorld))
     = Some ''auto commit'' \<and>
   fst (fst (resolveMessage (sim exDown None) exClient (exTask\<lparr>StaticMsg := []\<rparr>) ''diff'' exWorld))
     = None \<and>
   commits (snd (messageAndCommit (sim exDown None) exClient \<lparr>path = ''/home/u/notes''\<rparr>
                   (exTask\<lparr>StaticMsg := []\<rparr>) ''diff'' exWorld)) = [] \<and>
   fst (fst (resolveMessage (sim exDown None) (exClient\<lparr>APIKey := []\<rparr>) exTask ''diff'' exWorld))
     = Some ''auto commit'' \<and>
   snd (resolveMessage (sim exDown None) (exClient\<lparr>APIKey := []\<rparr>) exTask ''diff'' exWorld)
     = exWorld \<and>
   fst (fst (resolveMessage (sim exDown None) (exClient\<lparr>APIKey := []\<rparr>)
               (exTask\<lparr>StaticMsg := []\<rparr>) ''diff'' exWorld)) = None"
proof -
  let ?ok = "sim (exAnswer ('' '' @ [CHR 0x22] @ ''feat: add parser'' @ [CHR 0x22, CHR 0x0A])) None"
  let ?down = "sim exDown None"
  let ?nokey = "exClient\<lparr>APIKey := []\<rparr>"
  let ?nomsg = "exTask\<lparr>StaticMsg := []\<rparr>"
  let ?rm = "\<lparr>path = ''/home/u/notes''\<rparr>"
  have key: "APIKey exClient \<noteq> []" and cred: "HasCredentials exClient"
    and nocred: "\<not> HasCredentials ?nokey"
    by (simp_all add: exClient_def HasCredentials_def)
  have static: "StaticMsg exTask = ''auto commit''" and nostatic: "StaticMsg ?nomsg = []"
    by (simp_all add: exTask_def)
  have gen_ok: "fst (GenerateCommitMessage ?ok exClient ''diff'' exWorld) = Inr ''feat: add parser''"
    using trim_example
    by (simp add: GenerateCommitMessage_sim[OF key] exAnswer_def readResponse_exAnswer)
  have req_ok: "length (requests (snd (GenerateCommitMessage ?ok exClient ''diff'' exWorld))) = 1"
    by (simp add: GenerateCommitMessage_sim[OF key] exWorld_def)
  have gen_down: "fst (GenerateCommitMessage ?down exClient ''diff'' exWorld)
     = Inl (fmt_Errorf_w ''failed to send request'' (LibError ''connection refused''))"
    by (simp add: GenerateCommitMessage_sim[OF key] exDown_def)
  have commits_down: "commits (snd (GenerateCommitMessage ?down exClient ''diff'' exWorld)) = []"
    by (simp add: GenerateCommitMessage_sim[OF key] exWorld_def)
  note A = message_resolution_matrix[of ?ok exClient exTask "''diff''" exWorld ?rm]
  note B = message_resolution_matrix[of ?down exClient exTask "''diff''" exWorld ?rm]
  note C = message_resolution_matrix[of ?down exClient ?nomsg "''diff''" exWorld ?rm]
  note D = message_resolution_matrix[of ?down ?nokey exTask "''diff''" exWorld ?rm]
  note E = message_resolution_matrix[of ?down ?nokey ?nomsg "''diff''" exWorld ?rm]
  have a1: "fst (fst (resolveMessage ?ok exClient exTask ''diff'' exWorld)) = Some ''feat: add parser''"
    using A gen_ok cred by (simp add: spec_messageResolver_def)
  have a2: "length (requests (snd (resolveMessage ?ok exClient exTask ''diff'' exWorld))) = 1"
    using A req_ok cred by simp
  have a3: "\<exists>req resp content rest.
      http_Do ?ok req exWorld = (Inr resp, snd (GenerateCommitMessage ?ok exClient ''diff'' exWorld)) \<and>
      StatusCode resp = 200 \<and> chatResp resp = Inr (content # rest) \<and>
      ''feat: add parser'' = Trim (TrimSpace content) quoteCutset"
    using A gen_ok by blast
  have b1: "fst (fst (resolveMessage ?down exClient exTask ''diff'' exWorld)) = Some ''auto commit''"
    using B gen_down cred static by (simp add: spec_messageResolver_def)
  have c1: "fst (fst (resolveMessage ?down exClient ?nomsg ''diff'' exWorld)) = None"
    using C gen_down cred nostatic by (simp add: spec_messageResolver_def)
  have c2: "commits (snd (messageAndCommit ?down exClient ?rm ?nomsg ''diff'' exWorld)) = []"
    using C gen_down cred nostatic commits_down by (simp add: spec_messageResolver_def)
  have d1: "fst (fst (resolveMessage ?down ?nokey exTask ''diff'' exWorld)) = Some ''auto commit''"
    using D nocred static by (simp add: spec_messageResolver_def)
  have d2: "snd (resolveMessage ?down ?nokey exTask ''diff'' exWorld) = exWorld"
    using D nocred by simp
  have e1: "fst (fst (resolveMessage ?down ?nokey ?nomsg ''diff'' exWorld)) = None"
    using E nocred nostatic by (simp add: spec_messageResolver_def)
  from gen_ok a3 a1 a2 b1 c1 c2 d1 d2 e1 show ?thesis by blast
qed

section \<open>The pipeline of \<open>executeTask\<close>\<close>

lemma NewRepoManager_sim: "NewRepoManager (sim reply remote) p w = Inr \<lparr>path = p\<rparr>"
  by (simp add: NewRepoManager_def sim_def)

lemma HasChanges_sim:
  "HasChanges (sim reply remote) rm w =
     Inr (list_ex (\<lambda>(filePath, fileStatus).
            Worktree fileStatus \<noteq> Unmodified \<or> Staging fileStatus \<noteq> Unmodified) (files w))"
  by (simp add: HasChanges_def sim_def)

lemma HasStagedChanges_sim:
  "HasStagedChanges (sim reply remote) rm w =
     Inr (list_ex (\<lambda>(filePath, fileStatus). Staging fileStatus \<noteq> Unmodified) (files w))"
  by (simp add: HasStagedChanges_def sim_def)

text \<open>
  Claim C7. When the repository opens and \<open>HasChanges\<close> reports no change,
  \<open>executeTask\<close> logs the start of the run and ``No changes detected'' and returns. The
  outside state is the one it started from, and this holds for every implementation of the
  libraries, also one that records every call that stages, sends a request or commits: so
  nothing was staged, the generation was not called and no commit was made. The result does
  not depend on the client or on the static message.
\<close>

theorem executeTask_no_changes:
  assumes "NewRepoManager l (Path tk) w = Inr rm" and "HasChanges l rm w = Inr False"
  shows "executeTask l c tk w =
           ([logger_Printf ''Executing task for repository: %s'' [S (Path tk)],
             logger_Printf ''No changes detected in %s, skipping'' [S (Path tk)]], w)"
  using assms by (simp add: executeTask_def)

theorem executeTask_no_changes_witness:
  "NewRepoManager (sim (exAnswer ''feat: x'') None) (Path exTask) exClean = Inr \<lparr>path = ''/home/u/notes''\<rparr> \<and>
   HasChanges (sim (exAnswer ''feat: x'') None) \<lparr>path = ''/home/u/notes''\<rparr> exClean = Inr False \<and>
   executeTask (sim (exAnswer ''feat: x'') None) exClient exTask exClean =
     ([logger_Printf ''Executing task for repository: %s'' [S ''/home/u/notes''],
       logger_Printf ''No changes detected in %s, skipping'' [S ''/home/u/notes'']], exClean) \<and>
   commits exClean = [] \<and> requests exClean = []"
proof -
  let ?L = "sim (exAnswer ''feat: x'') None"
  have p: "Path exTask = ''/home/u/notes''" by (simp add: exTask_def)
  have h1: "NewRepoManager ?L (Path exTask) exClean = Inr \<lparr>path = ''/home/u/notes''\<rparr>"
    by (simp add: NewRepoManager_sim p)
  have h2: "HasChanges ?L \<lparr>path = ''/home/u/notes''\<rparr> exClean = Inr False"
    by (simp add: HasChanges_sim exClean_def)
  have "commits exClean = []" "requests exClean = []" by (simp_all add: exClean_def exWorld_def)
  with executeTask_no_changes[OF h1 h2, of exClient] h1 h2 p show ?thesis by simp
qed

lemma executeTask_to_commit:
  assumes "NewRepoManager l (Path tk) w = Inr rm" and "HasChanges l rm w = Inr True"
    and "stageStep l rm tk w = ((True, logs1), w1)" and "GetDiff l rm w1 = Inr diff"
    and "resolveMessage l c tk diff w1 = ((Some msg, logs2), w2)"
  shows "executeTask l c tk w =
           (logger_Printf ''Executing task for repository: %s'' [S (Path tk)] # logs1 @ logs2
              @ fst (commitAndPush l rm tk msg w2),
            snd (commitAndPush l rm tk msg w2))"
  using assms by (simp add: executeTask_def messageAndCommit_def case_prod_beta)

text \<open>
  Claim C8. When the push of the library answers with its ``already up to date'' error,
  \<open>Push\<close> returns no error. An execution that has committed and whose push ends that
  way logs ``Successfully pushed'' as its last line, and none of the lines of its commit
  and push is an error line.
\<close>

theorem Push_already_up_to_date:
  assumes "NewRepoManager l (Path tk) w = Inr rm" and "HasChanges l rm w = Inr True"
    and "stageStep l rm tk w = ((True, logs1), w1)" and "GetDiff l rm w1 = Inr diff"
    and "resolveMessage l c tk diff w1 = ((Some msg, logs2), w2)"
    and "Commit l rm msg w2 = (None, w3)" and "AutoPush tk"
    and "repo_Head l (path rm) w3 = Inr h"
    and "repo_Push l (path rm) [h @ '':'' @ h] w3 = (Some NoErrAlreadyUpToDate, w4)"
  shows "Push l rm w3 = (None, w4) \<and>
         executeTask l c tk w =
           (logger_Printf ''Executing task for repository: %s'' [S (Path tk)] # logs1 @ logs2 @
            [logger_Printf ''Created commit in %s: %s'' [S (Path tk), S msg],
             logger_Printf ''Auto-pushing commits in %s'' [S (Path tk)],
             logger_Printf ''Successfully pushed commits in %s'' [S (Path tk)]], w4) \<and>
         \<not> list_ex isErrorLine (fst (commitAndPush l rm tk msg w2))"
proof -
  have push: "Push l rm w3 = (None, w4)"
    using assms(8,9) by (simp add: Push_def)
  have cp: "commitAndPush l rm tk msg w2 =
           ([logger_Printf ''Created commit in %s: %s'' [S (Path tk), S msg],
             logger_Printf ''Auto-pushing commits in %s'' [S (Path tk)],
             logger_Printf ''Successfully pushed commits in %s'' [S (Path tk)]], w4)"
    using assms(6,7) push by (simp add: commitAndPush_def)
  from executeTask_to_commit[OF assms(1-5)] cp push show ?thesis by simp
qed

theorem Push_already_up_to_date_witness:
  "NewRepoManager (sim exDown (Some NoErrAlreadyUpToDate)) (Path (exTask\<lparr>ExcludePatterns := []\<rparr>)) exWorld
     = Inr \<lparr>path = ''/home/u/notes''\<rparr> \<and>
   HasChanges (sim exDown (Some NoErrAlreadyUpToDate)) \<lparr>path = ''/home/u/notes''\<rparr> exWorld = Inr True \<and>
   stageStep (sim exDown (Some NoErrAlreadyUpToDate)) \<lparr>path = ''/home/u/notes''\<rparr>
       (exTask\<lparr>ExcludePatterns := []\<rparr>) exWorld
     = ((True, [logger_Printf ''Auto-staging changes in %s'' [S ''/home/u/notes'']]), exStaged) \<and>
   GetDiff (sim exDown (Some NoErrAlreadyUpToDate)) \<lparr>path = ''/home/u/notes''\<rparr> exStaged
     = Inr (''File: debug.log (Status: Added)'' @ [CHR 0x0A]) \<and>
   resolveMessage (sim exDown (Some NoErrAlreadyUpToDate)) (exClient\<lparr>APIKey := []\<rparr>)
       (exTask\<lparr>ExcludePatterns := []\<rparr>) (''File: debug.log (Status: Added)'' @ [CHR 0x0A]) exStaged
     = ((Some ''auto commit'',
         [logger_Printf ''Using configured static message for %s'' [S ''/home/u/notes'']]), exStaged) \<and>
   Commit (sim exDown (Some NoErrAlreadyUpToDate)) \<lparr>path = ''/home/u/notes''\<rparr> ''auto commit'' exStaged
     = (None, exCommitted) \<and>
   AutoPush (exTask\<lparr>ExcludePatterns := []\<rparr>) \<and>
   repo_Head (sim exDown (Some NoErrAlreadyUpToDate)) ''/home/u/notes'' exCommitted
     = Inr ''refs/heads/main'' \<and>
   repo_Push (sim exDown (Some NoErrAlreadyUpToDate)) ''/home/u/notes''
       [''refs/heads/main'' @ '':'' @ ''refs/heads/main''] exCommitted
     = (Some NoErrAlreadyUpToDate, exCommitted\<lparr>pushes := 1\<rparr>) \<and>
   Push (sim exDown (Some NoErrAlreadyUpToDate)) \<lparr>path = ''/home/u/notes''\<rparr> exCommitted
     = (None, exCommitted\<lparr>pushes := 1\<rparr>) \<and>
   executeTask (sim exDown (Some NoErrAlreadyUpToDate)) (exClient\<lparr>APIKey := []\<rparr>)
       (exTask\<lparr>ExcludePatterns := []\<rparr>) exWorld
     = ([logger_Printf ''Executing task for repository: %s'' [S ''/home/u/notes''],
         logger_Printf ''Auto-staging changes in %s'' [S ''/home/u/notes''],
         logger_Printf ''Using configured static message for %s'' [S ''/home/u/notes''],
         logger_Printf ''Created commit in %s: %s'' [S ''/home/u/notes'', S ''auto commit''],
         logger_Printf ''Auto-pushing commits in %s'' [S ''/home/u/notes''],
         logger_Printf ''Successfully pushed commits in %s'' [S ''/home/u/notes'']],
        exCommitted\<lparr>pushes := 1\<rparr>)"
proof -
  let ?L = "sim exDown (Some NoErrAlreadyUpToDate)"
  let ?rm = "\<lparr>path = ''/home/u/notes''\<rparr>"
  let ?tk = "exTask\<lparr>ExcludePatterns := []\<rparr>"
  let ?c = "exClient\<lparr>APIKey := []\<rparr>"
  let ?diff = "''File: debug.log (Status: Added)'' @ [CHR 0x0A]"
  have h1: "NewRepoManager ?L (Path ?tk) exWorld = Inr ?rm" by code_simp
  have h2: "HasChanges ?L ?rm exWorld = Inr True" by code_simp
  have h3: "stageStep ?L ?rm ?tk exWorld
     = ((True, [logger_Printf ''Auto-staging changes in %s'' [S ''/home/u/notes'']]), exStaged)"
    by code_simp
  have h4: "GetDiff ?L ?rm exStaged = Inr ?diff" by code_simp
  have h5: "resolveMessage ?L ?c ?tk ?diff exStaged
     = ((Some ''auto commit'',
         [logger_Printf ''Using configured static message for %s'' [S ''/home/u/notes'']]), exStaged)"
    by code_simp
  have h6: "Commit ?L ?rm ''auto commit'' exStaged = (None, exCommitted)" by code_simp
  have h7: "AutoPush ?tk" by code_simp
  have h8: "repo_Head ?L (path ?rm) exCommitted = Inr ''refs/heads/main''" by (simp add: sim_def)
  have h9: "repo_Push ?L (path ?rm) [''refs/heads/main'' @ '':'' @ ''refs/heads/main''] exCommitted
     = (Some NoErrAlreadyUpToDate, exCommitted\<lparr>pushes := 1\<rparr>)"
    by (simp add: sim_def exCommitted_def exWorld_def)
  have p: "Path ?tk = ''/home/u/notes''" by (simp add: exTask_def)
  from Push_already_up_to_date[OF h1 h2 h3 h4 h5 h6 h7 h8 h9] p
  have "Push ?L ?rm exCommitted = (None, exCommitted\<lparr>pushes := 1\<rparr>)"
    and "executeTask ?L ?c ?tk exWorld
     = ([logger_Printf ''Executing task for repository: %s'' [S ''/home/u/notes''],
         logger_Printf ''Auto-staging changes in %s'' [S ''/home/u/notes''],
         logger_Printf ''Using configured static message for %s'' [S ''/home/u/notes''],
         logger_Printf ''Created commit in %s: %s'' [S ''/home/u/notes'', S ''auto commit''],
         logger_Printf ''Auto-pushing commits in %s'' [S ''/home/u/notes''],
         logger_Printf ''Successfully pushed commits in %s'' [S ''/home/u/notes'']],
        exCommitted\<lparr>pushes := 1\<rparr>)"
    by simp_all
  with h1 h2 h3 h4 h5 h6 h7 h8 h9 show ?thesis by simp
qed

section \<open>\<open>Commit\<close> without staged changes\<close>






end
